theory Spec2Isabelle
  imports Main
begin

section \<open>The CC-NEWS downloader (Project\_Scripts/01\_download\_newscrawl.py)\<close>

text \<open>
  The script is a batch job with effects on the local file system, the network, the clock
  and the log. The effects are made explicit: every function takes the \<open>world\<close> and
  returns the new one, a Python exception is a value of type \<open>exn\<close>, and what the remote
  server answers is an oracle of type \<open>network\<close>.

  Conventions of the model:
  \<^item> a \<open>string\<close> stands for a Python \<open>str\<close>, one element per character;
  \<^item> \<open>os.path\<close> is modelled with \<open>/\<close> as the separator;
  \<^item> \<open>open(local_path, 'wb')\<close> may raise \<open>OSError\<close> (the paths in \<open>unwritable\<close>);
    writing a chunk, \<open>os.makedirs\<close> and \<open>os.remove\<close> are taken to succeed;
  \<^item> the tasks of the thread pool are run one after the other, in the order of the
    list handed to \<open>executor.map\<close>, and an exception of a task ends the pool;
  \<^item> only files are on disk: \<open>os.path.exists\<close> is true of the paths that hold a file.
\<close>

subsection \<open>The environment\<close>

text \<open>
  What one \<open>requests.get(url, stream=True)\<close> meets:
  \<^item> \<open>NoResponse\<close>: the call itself raises (connection failure, timeout);
  \<^item> \<open>BadStatus c\<close>: a response arrives and \<open>raise_for_status()\<close> raises \<open>HTTPError\<close>;
  \<^item> \<open>Body chunks complete\<close>: the status is accepted and \<open>iter_content\<close> yields
    \<open>chunks\<close>; when \<open>complete\<close> is false the stream then raises (connection dropped or
    timed out while the body is read).
  All three failures are subclasses of \<open>requests.exceptions.RequestException\<close>.
\<close>

datatype response = NoResponse | BadStatus nat | Body "string list" bool

text \<open>The answer to a request for a URL, given how many requests the process made before.\<close>

type_synonym network = "nat \<Rightarrow> string \<Rightarrow> response"

datatype exn = RequestException | OSError | DecodeError

datatype level = INFO | WARNING | ERROR

datatype message =
    InvalidYearMonth
  | Attempting string
  | Downloaded string
  | Retrying string nat
  | FailedAfter string nat
  | ManifestFailed
  | Extracting string
  | LimitedTo int
  | AlreadyExists string
  | Starting nat
  | CleaningUp
  | AllDownloaded

record world =
  files :: "string \<rightharpoonup> string"
  unwritable :: "string set"
  requests :: "string list"
  sleeps :: "nat list"
  log :: "(level \<times> message) list"

definition emit :: "level \<Rightarrow> message \<Rightarrow> world \<Rightarrow> world" where
  "emit l m w = w\<lparr>log := log w @ [(l, m)]\<rparr>"

definition sleep :: "nat \<Rightarrow> world \<Rightarrow> world" where
  "sleep t w = w\<lparr>sleeps := sleeps w @ [t]\<rparr>"

definition path_exists :: "world \<Rightarrow> string \<Rightarrow> bool" where
  "path_exists w p = (files w p \<noteq> None)"

subsection \<open>Paths and arguments\<close>

definition basename :: "string \<Rightarrow> string" where
  "basename p = rev (takeWhile (\<lambda>c. c \<noteq> CHR ''/'') (rev p))"

definition path_join :: "string \<Rightarrow> string \<Rightarrow> string" where
  "path_join a b =
     (if b \<noteq> [] \<and> hd b = CHR ''/'' then b
      else if a = [] \<or> last a = CHR ''/'' then a @ b
      else a @ ''/'' @ b)"

record args =
  year_month :: string
  max_files :: "int option"
  download_folder :: "string option"

text \<open>
  \<open>if not YEAR_MONTH or len(YEAR_MONTH) != 7 or YEAR_MONTH[4] != '/'\<close>: the index is
  read only when the length is 7, as Python's \<open>or\<close> evaluates left to right.
\<close>

definition year_month_invalid :: "string \<Rightarrow> bool" where
  "year_month_invalid s =
     (if s = [] then True else if length s \<noteq> 7 then True else s ! 4 \<noteq> CHR ''/'')"

definition BASE_URL :: string where
  "BASE_URL = ''https://data.commoncrawl.org/crawl-data/CC-NEWS/''"

definition DOWNLOAD_URL :: string where
  "DOWNLOAD_URL = ''https://data.commoncrawl.org/''"

definition folder :: "args \<Rightarrow> string" where
  "folder a = map (\<lambda>c. if c = CHR ''/'' then CHR ''-'' else c) (year_month a)"

definition WARC_PATHS_FILE :: "args \<Rightarrow> string" where
  "WARC_PATHS_FILE a = year_month a @ ''/warc.paths.gz''"

definition default_root :: string where
  "default_root = ''D:'' @ [CHR 0x5C] @ ''CommonCrawl'' @ [CHR 0x5C] @ ''news''"

definition DOWNLOAD_FOLDER :: "args \<Rightarrow> string" where
  "DOWNLOAD_FOLDER a =
     (case download_folder a of
        None \<Rightarrow> path_join default_root (folder a)
      | Some d \<Rightarrow> if d = [] then path_join default_root (folder a) else d)"

definition warc_paths_local :: "args \<Rightarrow> string" where
  "warc_paths_local a = path_join (DOWNLOAD_FOLDER a) (basename (WARC_PATHS_FILE a))"

subsection \<open>download\_with\_retries\<close>

text \<open>
  The body of the \<open>try\<close>: one request. The file is opened (created or truncated) only
  once the status has been accepted, and the chunks received are written to it; nothing
  removes the file when the stream breaks afterwards.
\<close>

definition try_download :: "network \<Rightarrow> string \<Rightarrow> string \<Rightarrow> world \<Rightarrow> (exn + unit) \<times> world" where
  "try_download net url local_path w =
     (let w1 = (emit INFO (Attempting url) w)\<lparr>requests := requests w @ [url]\<rparr> in
      case net (length (requests w)) url of
        NoResponse \<Rightarrow> (Inl RequestException, w1)
      | BadStatus c \<Rightarrow> (Inl RequestException, w1)
      | Body chunks complete \<Rightarrow>
          if local_path \<in> unwritable w1 then (Inl OSError, w1)
          else
            let w2 = w1\<lparr>files := (files w1)(local_path \<mapsto> concat chunks)\<rparr> in
            if complete then (Inr (), emit INFO (Downloaded local_path) w2)
            else (Inl RequestException, w2))"

text \<open>
  The \<open>for attempt in range(retries)\<close> loop, by recursion on the attempts left. Only
  \<open>RequestException\<close> is caught; any other exception leaves the function.
\<close>

fun retry_loop ::
  "network \<Rightarrow> string \<Rightarrow> string \<Rightarrow> nat \<Rightarrow> nat \<Rightarrow> nat \<Rightarrow> world \<Rightarrow> (exn + bool) \<times> world" where
  "retry_loop net url local_path retries 0 wait_time w =
     (Inr False, emit ERROR (FailedAfter url retries) w)"
| "retry_loop net url local_path retries (Suc n) wait_time w =
     (case try_download net url local_path w of
        (Inr u, w') \<Rightarrow> (Inr True, w')
      | (Inl e, w') \<Rightarrow>
          if e = RequestException
          then retry_loop net url local_path retries n (wait_time * 2)
                 (sleep wait_time (emit WARNING (Retrying url wait_time) w'))
          else (Inl e, w'))"

definition download_with_retries ::
  "network \<Rightarrow> string \<Rightarrow> string \<Rightarrow> nat \<Rightarrow> nat \<Rightarrow> world \<Rightarrow> (exn + bool) \<times> world" where
  "download_with_retries net url local_path retries backoff w =
     retry_loop net url local_path retries retries backoff w"

subsection \<open>download\_warc\_file and the pool\<close>

definition local_filename :: "string \<Rightarrow> string \<Rightarrow> string" where
  "local_filename dir path = path_join dir (basename path)"

text \<open>
  The function returns Python's \<open>None\<close> on both paths: the \<open>bool\<close> that
  \<open>download_with_retries\<close> returns is dropped.
\<close>

definition download_warc_file ::
  "network \<Rightarrow> string \<Rightarrow> string \<Rightarrow> world \<Rightarrow> (exn + bool option) \<times> world" where
  "download_warc_file net dir path w =
     (let url = DOWNLOAD_URL @ path; local = local_filename dir path in
      if path_exists w local then (Inr None, emit INFO (AlreadyExists local) w)
      else
        case download_with_retries net url local 5 10 w of
          (Inl e, w') \<Rightarrow> (Inl e, w')
        | (Inr ok, w') \<Rightarrow> (Inr None, w'))"

text \<open>
  \<open>list(tqdm(executor.map(download_warc_file, file_paths), ...))\<close>: the results in the
  order of the paths; an exception of a task is raised again when its result is reached.
\<close>

fun executor_map ::
  "network \<Rightarrow> string \<Rightarrow> string list \<Rightarrow> world \<Rightarrow> (exn + bool option list) \<times> world" where
  "executor_map net dir [] w = (Inr [], w)"
| "executor_map net dir (p # ps) w =
     (case download_warc_file net dir p w of
        (Inl e, w') \<Rightarrow> (Inl e, w')
      | (Inr r, w') \<Rightarrow>
          (case executor_map net dir ps w' of
             (Inl e, w'') \<Rightarrow> (Inl e, w'')
           | (Inr rs, w'') \<Rightarrow> (Inr (r # rs), w'')))"

subsection \<open>The script\<close>

text \<open>\<open>str.strip()\<close>: white space is removed at both ends.\<close>

definition isspace :: "char \<Rightarrow> bool" where
  "isspace c = (of_char c \<in> {9, 10, 11, 12, 13, 28, 29, 30, 31, 32, 133, 160 :: nat})"

definition strip :: "string \<Rightarrow> string" where
  "strip s = rev (dropWhile isspace (rev (dropWhile isspace s)))"

text \<open>\<open>xs[:k]\<close>: a negative \<open>k\<close> counts from the end.\<close>

definition slice_to :: "int \<Rightarrow> 'a list \<Rightarrow> 'a list" where
  "slice_to k xs = (if k < 0 then take (nat (int (length xs) + k)) xs else take (nat k) xs)"

text \<open>\<open>if args.max_files:\<close> is false for \<open>None\<close> and for \<open>0\<close>.\<close>

definition limit_files :: "int option \<Rightarrow> string list \<Rightarrow> world \<Rightarrow> string list \<times> world" where
  "limit_files mf file_paths w =
     (case mf of
        None \<Rightarrow> (file_paths, w)
      | Some k \<Rightarrow>
          if k = 0 then (file_paths, w)
          else (slice_to k file_paths, emit INFO (LimitedTo k) w))"

datatype status = Exit nat | Uncaught exn

text \<open>Lines 115 to 120: the local copy of the listing is removed.\<close>

definition cleanup :: "args \<Rightarrow> world \<Rightarrow> world" where
  "cleanup a w =
     (let local = warc_paths_local a;
          w1 = emit INFO CleaningUp w;
          w2 = (if path_exists w1 local then w1\<lparr>files := (files w1)(local := None)\<rparr> else w1)
      in emit INFO AllDownloaded w2)"

text \<open>
  Lines 91 to 120, once the listing is on disk. \<open>read_lines\<close> stands for
  \<open>gzip.open(path, 'rt')\<close> and the iteration over its lines: it maps the bytes of the file
  to the lines of the decompressed text, or to nothing when they do not decode.
\<close>

definition fetch_listed ::
  "(string \<Rightarrow> string list option) \<Rightarrow> network \<Rightarrow> args \<Rightarrow> world \<Rightarrow> status \<times> world" where
  "fetch_listed read_lines net a w =
     (let local = warc_paths_local a;
          w1 = emit INFO (Extracting local) w in
      case files w1 local of
        None \<Rightarrow> (Uncaught OSError, w1)
      | Some bytes \<Rightarrow>
          (case read_lines bytes of
             None \<Rightarrow> (Uncaught DecodeError, w1)
           | Some lines \<Rightarrow>
               let (file_paths, w2) = limit_files (max_files a) (map strip lines) w1;
                   w3 = emit INFO (Starting (length file_paths)) w2 in
               case executor_map net (DOWNLOAD_FOLDER a) file_paths w3 of
                 (Inl e, w4) \<Rightarrow> (Uncaught e, w4)
               | (Inr rs, w4) \<Rightarrow> (Exit 0, cleanup a w4)))"

text \<open>Lines 54 to 120: the listing is downloaded unless a copy is on disk.\<close>

definition download_month ::
  "(string \<Rightarrow> string list option) \<Rightarrow> network \<Rightarrow> args \<Rightarrow> world \<Rightarrow> status \<times> world" where
  "download_month read_lines net a w =
     (let local = warc_paths_local a in
      if \<not> path_exists w local then
        (case download_with_retries net (BASE_URL @ WARC_PATHS_FILE a) local 5 10 w of
           (Inl e, w1) \<Rightarrow> (Uncaught e, w1)
         | (Inr ok, w1) \<Rightarrow>
             if \<not> ok then (Exit 1, emit ERROR ManifestFailed w1)
             else fetch_listed read_lines net a w1)
      else fetch_listed read_lines net a w)"

definition main ::
  "(string \<Rightarrow> string list option) \<Rightarrow> network \<Rightarrow> args \<Rightarrow> world \<Rightarrow> status \<times> world" where
  "main read_lines net a w =
     (if year_month_invalid (year_month a) then (Exit 1, emit ERROR InvalidYearMonth w)
      else download_month read_lines net a w)"

subsection \<open>Kinds of failed requests\<close>

text \<open>A request that ends in a \<open>RequestException\<close>, at any stage.\<close>

definition request_fails :: "response \<Rightarrow> bool" where
  "request_fails r =
     (case r of NoResponse \<Rightarrow> True | BadStatus c \<Rightarrow> True | Body chunks complete \<Rightarrow> \<not> complete)"

text \<open>A request that fails before the destination file is opened.\<close>

definition fails_before_body :: "response \<Rightarrow> bool" where
  "fails_before_body r =
     (case r of NoResponse \<Rightarrow> True | BadStatus c \<Rightarrow> True | Body chunks complete \<Rightarrow> False)"

text \<open>A request that is answered in full.\<close>

definition served :: "response \<Rightarrow> bool" where
  "served r =
     (case r of NoResponse \<Rightarrow> False | BadStatus c \<Rightarrow> False | Body chunks complete \<Rightarrow> complete)"


subsection \<open>Example environments\<close>

definition empty_world :: world where
  "empty_world = \<lparr>files = Map.empty, unwritable = {}, requests = [], sleeps = [], log = []\<rparr>"

text \<open>A server that cannot be reached.\<close>

definition dead_net :: network where
  "dead_net n u = NoResponse"

text \<open>A server that accepts every request and drops the connection in the body.\<close>

definition truncating_net :: network where
  "truncating_net n u = Body [''par'', ''t''] False"

text \<open>A server that serves the listing of 2023/09 and every object.\<close>

definition serving_net :: network where
  "serving_net n u =
     (if u = ''https://data.commoncrawl.org/crawl-data/CC-NEWS/2023/09/warc.paths.gz''
      then Body [''gz''] True else Body [''warc''] True)"

text \<open>A server that serves the listing of 2023/09 and nothing else.\<close>

definition listing_only_net :: network where
  "listing_only_net n u =
     (if u = ''https://data.commoncrawl.org/crawl-data/CC-NEWS/2023/09/warc.paths.gz''
      then Body [''gz''] True else NoResponse)"

text \<open>A listing of one line, \<open>a/1.warc.gz\<close> and a line feed.\<close>

definition read_listing :: "string \<Rightarrow> string list option" where
  "read_listing bytes = (if bytes = ''gz'' then Some [''a/1.warc.gz'' @ [CHR 0x0A]] else None)"

definition args_2023_09 :: args where
  "args_2023_09 = \<lparr>year_month = ''2023/09'', max_files = None, download_folder = Some ''d''\<rparr>"

text \<open>A destination directory that already holds \<open>1.warc.gz\<close>.\<close>

definition resumed_world :: world where
  "resumed_world = empty_world\<lparr>files := [''d/1.warc.gz'' \<mapsto> ''warc'']\<rparr>"

text \<open>A destination directory in which \<open>1.warc.gz\<close> cannot be opened for writing.\<close>

definition readonly_world :: world where
  "readonly_world = empty_world\<lparr>unwritable := {''d/1.warc.gz''}\<rparr>"

text \<open>A listing of three lines, a limit of two files, and a directory that holds the listing.\<close>

definition read_three_lines :: "string \<Rightarrow> string list option" where
  "read_three_lines bytes =
     (if bytes = ''gz''
      then Some [''a/1.warc.gz'' @ [CHR 0x0A], ''a/2.warc.gz'' @ [CHR 0x0A],
                 ''a/3.warc.gz'' @ [CHR 0x0A]]
      else None)"

definition args_first_two :: args where
  "args_first_two = \<lparr>year_month = ''2023/09'', max_files = Some 2, download_folder = Some ''d''\<rparr>"


definition listed_world :: world where
  "listed_world = empty_world\<lparr>files := [''d/warc.paths.gz'' \<mapsto> ''gz'']\<rparr>"

text \<open>Bytes that do not decode.\<close>

definition read_nothing :: "string \<Rightarrow> string list option" where
  "read_nothing bytes = None"


section \<open>Properties\<close>

subsection \<open>The effects of the helpers\<close>


lemma emit_simps [simp]:
  "files (emit l m w) = files w" "unwritable (emit l m w) = unwritable w"
  "requests (emit l m w) = requests w" "sleeps (emit l m w) = sleeps w"
  "log (emit l m w) = log w @ [(l, m)]"
  by (simp_all add: emit_def)

lemma sleep_simps [simp]:
  "files (sleep t w) = files w" "unwritable (sleep t w) = unwritable w"
  "requests (sleep t w) = requests w" "sleeps (sleep t w) = sleeps w @ [t]"
  "log (sleep t w) = log w"
  by (simp_all add: sleep_def)

lemma path_exists_emit [simp]: "path_exists (emit l m w) p = path_exists w p"
  by (simp add: path_exists_def)

lemma try_download_unwritable [simp]:
  "unwritable (snd (try_download net url lp w)) = unwritable w"
  by (simp add: try_download_def Let_def split: response.splits)

lemma try_download_requests [simp]:
  "requests (snd (try_download net url lp w)) = requests w @ [url]"
  by (simp add: try_download_def Let_def split: response.splits)

lemma try_download_sleeps [simp]:
  "sleeps (snd (try_download net url lp w)) = sleeps w"
  by (simp add: try_download_def Let_def split: response.splits)

lemma try_download_fails:
  "request_fails (net (length (requests w)) url) \<Longrightarrow> lp \<notin> unwritable w \<Longrightarrow>
   fst (try_download net url lp w) = Inl RequestException"
  by (simp add: try_download_def request_fails_def Let_def split: response.splits)

lemma try_download_before_body:
  "fails_before_body (net (length (requests w)) url) \<Longrightarrow>
   fst (try_download net url lp w) = Inl RequestException \<and>
   files (snd (try_download net url lp w)) = files w"
  by (simp add: try_download_def fails_before_body_def Let_def split: response.splits)

lemma try_download_exn:
  "fst (try_download net url lp w) = Inl e \<Longrightarrow> e = RequestException \<or> e = OSError \<and> lp \<in> unwritable w"
  by (simp add: try_download_def Let_def split: response.splits if_splits)

lemma try_download_ok_exists:
  "fst (try_download net url lp w) = Inr u \<Longrightarrow> path_exists (snd (try_download net url lp w)) lp"
  by (simp add: try_download_def Let_def path_exists_def split: response.splits if_splits)

lemma retry_loop_unwritable [simp]:
  "unwritable (snd (retry_loop net url lp r n wt w)) = unwritable w"
proof (induction n arbitrary: wt w)
  case 0
  show ?case by simp
next
  case (Suc n)
  obtain e w' where td: "try_download net url lp w = (e, w')" by (cases "try_download net url lp w")
  have u: "unwritable w' = unwritable w" using try_download_unwritable[of net url lp w] td by simp
  show ?case using td u Suc.IH by (simp split: sum.splits)
qed

lemma retry_loop_all_fail:
  "\<forall>n. request_fails (net n url) \<Longrightarrow> lp \<notin> unwritable w \<Longrightarrow>
   fst (retry_loop net url lp r n wt w) = Inr False \<and>
   requests (snd (retry_loop net url lp r n wt w)) = requests w @ replicate n url \<and>
   sleeps (snd (retry_loop net url lp r n wt w)) = sleeps w @ map (\<lambda>i. wt * 2 ^ i) [0..<n]"
proof (induction n arbitrary: wt w)
  case 0
  then show ?case by simp
next
  case (Suc n)
  obtain e w' where td: "try_download net url lp w = (e, w')" by (cases "try_download net url lp w")
  have e: "e = Inl RequestException" using try_download_fails[of net w url lp] Suc.prems td by simp
  have u: "unwritable w' = unwritable w" using try_download_unwritable[of net url lp w] td by simp
  have rq: "requests w' = requests w @ [url]" using try_download_requests[of net url lp w] td by simp
  have sl: "sleeps w' = sleeps w" using try_download_sleeps[of net url lp w] td by simp
  let ?w = "sleep wt (emit WARNING (Retrying url wt) w')"
  have ih: "fst (retry_loop net url lp r n (wt * 2) ?w) = Inr False \<and>
   requests (snd (retry_loop net url lp r n (wt * 2) ?w)) = requests ?w @ replicate n url \<and>
   sleeps (snd (retry_loop net url lp r n (wt * 2) ?w)) = sleeps ?w @ map (\<lambda>i. wt * 2 * 2 ^ i) [0..<n]"
    using Suc.IH[of ?w "wt * 2"] Suc.prems u by simp
  have m: "map (\<lambda>i. wt * 2 ^ i) [0..<Suc n] = wt # map (\<lambda>i. wt * 2 * 2 ^ i) [0..<n]"
    by (simp add: upt_conv_Cons map_Suc_upt[symmetric] del: upt_Suc)
  show ?case using ih td e rq sl m replicate_app_Cons_same by (simp del: upt_Suc)
qed

lemma geometric_sum: "sum_list (map (\<lambda>i. b * 2 ^ i) [0..<n]) = b * (2 ^ n - 1 :: nat)"
  by (induction n) (simp_all add: algebra_simps)

lemma retry_loop_before_body:
  "\<forall>n. fails_before_body (net n url) \<Longrightarrow>
   fst (retry_loop net url lp r n wt w) = Inr False \<and>
   files (snd (retry_loop net url lp r n wt w)) = files w"
proof (induction n arbitrary: wt w)
  case 0
  then show ?case by simp
next
  case (Suc n)
  obtain e w' where td: "try_download net url lp w = (e, w')" by (cases "try_download net url lp w")
  have e: "e = Inl RequestException" and f: "files w' = files w"
    using try_download_before_body[of net w url lp] Suc.prems td by simp_all
  show ?case using td e f Suc.IH[OF Suc.prems] by simp
qed

lemma retry_loop_requests:
  "\<exists>k\<le>n. requests (snd (retry_loop net url lp r n wt w)) = requests w @ replicate k url"
proof (induction n arbitrary: wt w)
  case 0
  show ?case by simp
next
  case (Suc n)
  obtain e w' where td: "try_download net url lp w = (e, w')" by (cases "try_download net url lp w")
  have rq: "requests w' = requests w @ [url]" using try_download_requests[of net url lp w] td by simp
  let ?w = "sleep wt (emit WARNING (Retrying url wt) w')"
  obtain k where k: "k \<le> n" "requests (snd (retry_loop net url lp r n (wt * 2) ?w)) = requests ?w @ replicate k url"
    using Suc.IH[of "wt * 2" ?w] by blast
  have one: "requests w' = requests w @ replicate (Suc 0) url" using rq by simp
  have more: "requests ?w @ replicate k url = requests w @ replicate (Suc k) url"
    using rq replicate_app_Cons_same by simp
  show ?case
  proof (cases e)
    case (Inr u)
    then show ?thesis using td one by (intro exI[of _ "Suc 0"]) simp
  next
    case (Inl x)
    show ?thesis
    proof (cases "x = RequestException")
      case True
      then show ?thesis using td Inl k more by (intro exI[of _ "Suc k"]) simp
    next
      case False
      then show ?thesis using td Inl one by (intro exI[of _ "Suc 0"]) simp
    qed
  qed
qed

lemma retry_loop_false:
  "fst (retry_loop net url lp r n wt w) = Inr False \<Longrightarrow>
   requests (snd (retry_loop net url lp r n wt w)) = requests w @ replicate n url"
proof (induction n arbitrary: wt w)
  case 0
  show ?case by simp
next
  case (Suc n)
  obtain e w' where td: "try_download net url lp w = (e, w')" by (cases "try_download net url lp w")
  have rq: "requests w' = requests w @ [url]" using try_download_requests[of net url lp w] td by simp
  let ?w = "sleep wt (emit WARNING (Retrying url wt) w')"
  from Suc.prems td have e: "e = Inl RequestException"
    by (simp split: sum.splits if_splits)
  with Suc.prems td have "fst (retry_loop net url lp r n (wt * 2) ?w) = Inr False" by simp
  from Suc.IH[OF this] show ?case using td e rq replicate_app_Cons_same by simp
qed

lemma retry_loop_true_exists:
  "fst (retry_loop net url lp r n wt w) = Inr True \<Longrightarrow>
   path_exists (snd (retry_loop net url lp r n wt w)) lp"
proof (induction n arbitrary: wt w)
  case 0
  then show ?case by simp
next
  case (Suc n)
  obtain e w' where td: "try_download net url lp w = (e, w')" by (cases "try_download net url lp w")
  show ?case
  proof (cases e)
    case (Inr u)
    then show ?thesis using td try_download_ok_exists[of net url lp w u] by simp
  next
    case (Inl x)
    with Suc.prems td have x: "x = RequestException" by (simp split: if_splits)
    with Suc.prems td Inl have "fst (retry_loop net url lp r n (wt * 2) (sleep wt (emit WARNING (Retrying url wt) w'))) = Inr True" by simp
    from Suc.IH[OF this] show ?thesis using td Inl x by simp
  qed
qed

lemma retry_loop_exn:
  "fst (retry_loop net url lp r n wt w) = Inl e \<Longrightarrow> e = OSError \<and> lp \<in> unwritable w"
proof (induction n arbitrary: wt w)
  case 0
  then show ?case by simp
next
  case (Suc n)
  obtain x w' where td: "try_download net url lp w = (x, w')" by (cases "try_download net url lp w")
  have u: "unwritable w' = unwritable w" using try_download_unwritable[of net url lp w] td by simp
  show ?case
  proof (cases x)
    case (Inr u)
    then show ?thesis using td Suc.prems by simp
  next
    case (Inl y)
    show ?thesis
    proof (cases "y = RequestException")
      case True
      with Suc.prems td Inl have "fst (retry_loop net url lp r n (wt * 2) (sleep wt (emit WARNING (Retrying url wt) w'))) = Inl e" by simp
      from Suc.IH[OF this] show ?thesis using u by simp
    next
      case False
      with Suc.prems td Inl have "e = y" by simp
      then show ?thesis using False try_download_exn[of net url lp w y] td Inl by simp
    qed
  qed
qed


lemma download_with_retries_unwritable [simp]:
  "unwritable (snd (download_with_retries net url lp r b w)) = unwritable w"
  by (simp add: download_with_retries_def)

lemma download_warc_file_skip:
  "path_exists w (local_filename dir p) \<Longrightarrow>
   download_warc_file net dir p w = (Inr None, emit INFO (AlreadyExists (local_filename dir p)) w)"
  by (simp add: download_warc_file_def Let_def)

lemma download_warc_file_unwritable [simp]:
  "unwritable (snd (download_warc_file net dir p w)) = unwritable w"
proof -
  obtain x w' where d: "download_with_retries net (DOWNLOAD_URL @ p) (local_filename dir p) 5 10 w = (x, w')"
    by (cases "download_with_retries net (DOWNLOAD_URL @ p) (local_filename dir p) 5 10 w")
  have "unwritable w' = unwritable w"
    using download_with_retries_unwritable[of net "DOWNLOAD_URL @ p" "local_filename dir p" 5 10 w] d by simp
  then show ?thesis using d by (simp add: download_warc_file_def Let_def split: sum.splits)
qed

lemma download_warc_file_requests:
  "\<exists>k\<le>5. requests (snd (download_warc_file net dir p w)) = requests w @ replicate k (DOWNLOAD_URL @ p)"
proof (cases "path_exists w (local_filename dir p)")
  case True
  then show ?thesis by (intro exI[of _ 0]) (simp add: download_warc_file_skip)
next
  case False
  obtain x w' where d: "download_with_retries net (DOWNLOAD_URL @ p) (local_filename dir p) 5 10 w = (x, w')"
    by (cases "download_with_retries net (DOWNLOAD_URL @ p) (local_filename dir p) 5 10 w")
  obtain k where "k \<le> 5" "requests w' = requests w @ replicate k (DOWNLOAD_URL @ p)"
    using retry_loop_requests[of 5 net "DOWNLOAD_URL @ p" "local_filename dir p" 5 10 w] d
    by (auto simp: download_with_retries_def)
  then show ?thesis using d False
    by (intro exI[of _ k]) (simp add: download_warc_file_def Let_def split: sum.splits)
qed

lemma download_warc_file_exn:
  "fst (download_warc_file net dir p w) = Inl e \<Longrightarrow> e = OSError \<and> local_filename dir p \<in> unwritable w"
proof -
  assume a: "fst (download_warc_file net dir p w) = Inl e"
  obtain x w' where d: "download_with_retries net (DOWNLOAD_URL @ p) (local_filename dir p) 5 10 w = (x, w')"
    by (cases "download_with_retries net (DOWNLOAD_URL @ p) (local_filename dir p) 5 10 w")
  from a d have "x = Inl e"
    by (simp add: download_warc_file_def Let_def split: sum.splits if_splits)
  then have "fst (retry_loop net (DOWNLOAD_URL @ p) (local_filename dir p) 5 5 10 w) = Inl e"
    using d by (simp add: download_with_retries_def)
  then show ?thesis by (rule retry_loop_exn)
qed

lemma download_warc_file_none:
  "fst (download_warc_file net dir p w) = Inr r \<Longrightarrow> r = None"
  by (auto simp: download_warc_file_def Let_def split: sum.splits if_splits prod.splits)

lemma download_warc_file_returns:
  "local_filename dir p \<notin> unwritable w \<Longrightarrow> fst (download_warc_file net dir p w) = Inr None"
proof -
  assume a: "local_filename dir p \<notin> unwritable w"
  show ?thesis
  proof (cases "fst (download_warc_file net dir p w)")
    case (Inl e)
    then show ?thesis using download_warc_file_exn[of net dir p w e] a by simp
  next
    case (Inr r)
    then show ?thesis using download_warc_file_none[of net dir p w r] by simp
  qed
qed

lemma executor_map_unwritable [simp]:
  "unwritable (snd (executor_map net dir ps w)) = unwritable w"
proof (induction ps arbitrary: w)
  case Nil
  show ?case by simp
next
  case (Cons p ps)
  obtain x w' where d: "download_warc_file net dir p w = (x, w')" by (cases "download_warc_file net dir p w")
  have u: "unwritable w' = unwritable w" using download_warc_file_unwritable[of net dir p w] d by simp
  obtain y w'' where m: "executor_map net dir ps w' = (y, w'')" by (cases "executor_map net dir ps w'")
  have "unwritable w'' = unwritable w'" using Cons.IH[of w'] m by simp
  then show ?case using d u m by (simp split: sum.splits)
qed

lemma executor_map_requests:
  "\<exists>rs. requests (snd (executor_map net dir ps w)) = requests w @ rs \<and>
        set rs \<subseteq> (\<lambda>p. DOWNLOAD_URL @ p) ` set ps"
proof (induction ps arbitrary: w)
  case Nil
  show ?case by simp
next
  case (Cons p ps)
  obtain x w' where d: "download_warc_file net dir p w = (x, w')" by (cases "download_warc_file net dir p w")
  obtain k where k: "requests w' = requests w @ replicate k (DOWNLOAD_URL @ p)"
    using download_warc_file_requests[of net dir p w] d by auto
  obtain y w'' where m: "executor_map net dir ps w' = (y, w'')" by (cases "executor_map net dir ps w'")
  obtain rs where rs: "requests w'' = requests w' @ rs" "set rs \<subseteq> (\<lambda>p. DOWNLOAD_URL @ p) ` set ps"
    using Cons.IH[of w'] m by auto
  have a: "set (replicate k (DOWNLOAD_URL @ p)) \<subseteq> (\<lambda>p. DOWNLOAD_URL @ p) ` set (p # ps)"
    by (auto simp: set_replicate_conv_if)
  have b: "set (replicate k (DOWNLOAD_URL @ p) @ rs) \<subseteq> (\<lambda>p. DOWNLOAD_URL @ p) ` set (p # ps)"
    using a rs(2) by auto
  show ?case
  proof (cases x)
    case (Inl e)
    then show ?thesis using d k a by (intro exI[of _ "replicate k (DOWNLOAD_URL @ p)"]) simp
  next
    case (Inr r)
    then show ?thesis using d k m rs(1) b
      by (intro exI[of _ "replicate k (DOWNLOAD_URL @ p) @ rs"]) (simp split: sum.splits)
  qed
qed

lemma executor_map_none:
  "fst (executor_map net dir ps w) = Inr rs \<Longrightarrow> rs = replicate (length ps) None"
proof (induction ps arbitrary: w rs)
  case Nil
  then show ?case by simp
next
  case (Cons p ps)
  obtain x w' where d: "download_warc_file net dir p w = (x, w')" by (cases "download_warc_file net dir p w")
  obtain y w'' where m: "executor_map net dir ps w' = (y, w'')" by (cases "executor_map net dir ps w'")
  from Cons.prems d m obtain r rs' where x: "x = Inr r" and y: "y = Inr rs'" and rs: "rs = r # rs'"
    by (auto split: sum.splits)
  have "r = None" using download_warc_file_none[of net dir p w r] d x by simp
  moreover have "rs' = replicate (length ps) None" using Cons.IH[of w' rs'] m y by simp
  ultimately show ?case using rs by simp
qed

lemma executor_map_returns:
  "\<forall>p\<in>set ps. local_filename dir p \<notin> unwritable w \<Longrightarrow>
   fst (executor_map net dir ps w) = Inr (replicate (length ps) None)"
proof (induction ps arbitrary: w)
  case Nil
  show ?case by simp
next
  case (Cons p ps)
  obtain x w' where d: "download_warc_file net dir p w = (x, w')" by (cases "download_warc_file net dir p w")
  have x: "x = Inr None" using download_warc_file_returns[of dir p w net] Cons.prems d by simp
  have u: "unwritable w' = unwritable w" using download_warc_file_unwritable[of net dir p w] d by simp
  obtain y w'' where m: "executor_map net dir ps w' = (y, w'')" by (cases "executor_map net dir ps w'")
  have "y = Inr (replicate (length ps) None)" using Cons.IH[of w'] Cons.prems u m by simp
  then show ?case using d x m by simp
qed

lemma executor_map_all_exist:
  "\<forall>p\<in>set ps. path_exists w (local_filename dir p) \<Longrightarrow>
   fst (executor_map net dir ps w) = Inr (replicate (length ps) None) \<and>
   requests (snd (executor_map net dir ps w)) = requests w \<and>
   files (snd (executor_map net dir ps w)) = files w"
proof (induction ps arbitrary: w)
  case Nil
  show ?case by simp
next
  case (Cons p ps)
  let ?w = "emit INFO (AlreadyExists (local_filename dir p)) w"
  have d: "download_warc_file net dir p w = (Inr None, ?w)"
    using Cons.prems by (simp add: download_warc_file_skip)
  have "\<forall>q\<in>set ps. path_exists ?w (local_filename dir q)" using Cons.prems by simp
  from Cons.IH[OF this] have ih:
    "fst (executor_map net dir ps ?w) = Inr (replicate (length ps) None)"
    "requests (snd (executor_map net dir ps ?w)) = requests w"
    "files (snd (executor_map net dir ps ?w)) = files w" by simp_all
  obtain y w'' where m: "executor_map net dir ps ?w = (y, w'')" by (cases "executor_map net dir ps ?w")
  show ?case using d m ih by simp
qed

subsection \<open>The script's phases\<close>

lemma folder_max_files [simp]: "folder (a\<lparr>max_files := m\<rparr>) = folder a"
  by (simp add: folder_def)

lemma DOWNLOAD_FOLDER_max_files [simp]: "DOWNLOAD_FOLDER (a\<lparr>max_files := m\<rparr>) = DOWNLOAD_FOLDER a"
  by (simp add: DOWNLOAD_FOLDER_def split: option.splits)

lemma WARC_PATHS_FILE_max_files [simp]: "WARC_PATHS_FILE (a\<lparr>max_files := m\<rparr>) = WARC_PATHS_FILE a"
  by (simp add: WARC_PATHS_FILE_def)

lemma warc_paths_local_max_files [simp]:
  "warc_paths_local (a\<lparr>max_files := m\<rparr>) = warc_paths_local a"
  by (simp add: warc_paths_local_def)

lemma cleanup_max_files [simp]: "cleanup (a\<lparr>max_files := m\<rparr>) w = cleanup a w"
  by (simp add: cleanup_def)

lemma limit_files_zero: "limit_files (Some 0) file_paths w = limit_files None file_paths w"
  by (simp add: limit_files_def)

lemma fetch_listed_zero:
  "fetch_listed read_lines net (a\<lparr>max_files := Some 0\<rparr>) w =
   fetch_listed read_lines net (a\<lparr>max_files := None\<rparr>) w"
  by (simp add: fetch_listed_def limit_files_zero Let_def
      cong: option.case_cong prod.case_cong sum.case_cong)

lemma download_month_zero:
  "download_month read_lines net (a\<lparr>max_files := Some 0\<rparr>) w =
   download_month read_lines net (a\<lparr>max_files := None\<rparr>) w"
  by (simp add: download_month_def fetch_listed_zero Let_def
      cong: if_cong prod.case_cong sum.case_cong)

lemma cleanup_removes: "\<not> path_exists (cleanup a w) (warc_paths_local a)"
  by (simp add: cleanup_def Let_def path_exists_def)

lemma fetch_listed_unfold:
  assumes "files w (warc_paths_local a) = Some bytes" and "read_lines bytes = Some lines"
    and "limit_files (max_files a) (map strip lines) (emit INFO (Extracting (warc_paths_local a)) w)
           = (fp, w2)"
    and "executor_map net (DOWNLOAD_FOLDER a) fp (emit INFO (Starting (length fp)) w2) = (r, w4)"
  shows "fetch_listed read_lines net a w =
           (case r of Inl e \<Rightarrow> (Uncaught e, w4) | Inr rs \<Rightarrow> (Exit 0, cleanup a w4))"
  using assms by (simp add: fetch_listed_def Let_def split: sum.splits)

lemma fetch_listed_exit0:
  assumes "fst (fetch_listed read_lines net a w) = Exit 0"
  shows "\<not> path_exists (snd (fetch_listed read_lines net a w)) (warc_paths_local a)"
proof -
  let ?l = "warc_paths_local a"
  obtain bytes where b: "files w ?l = Some bytes"
    using assms by (cases "files w ?l") (simp_all add: fetch_listed_def Let_def)
  obtain lines where l: "read_lines bytes = Some lines"
    using assms b by (cases "read_lines bytes") (simp_all add: fetch_listed_def Let_def)
  obtain fp w2 where lf: "limit_files (max_files a) (map strip lines) (emit INFO (Extracting ?l) w) = (fp, w2)"
    by (cases "limit_files (max_files a) (map strip lines) (emit INFO (Extracting ?l) w)")
  obtain r w4 where em: "executor_map net (DOWNLOAD_FOLDER a) fp (emit INFO (Starting (length fp)) w2) = (r, w4)"
    by (cases "executor_map net (DOWNLOAD_FOLDER a) fp (emit INFO (Starting (length fp)) w2)")
  note u = fetch_listed_unfold[where read_lines = read_lines, OF b l lf em]
  show ?thesis
  proof (cases r)
    case (Inl e)
    then show ?thesis using assms u by simp
  next
    case (Inr rs)
    then show ?thesis using u cleanup_removes by simp
  qed
qed

lemma download_month_exit0:
  assumes "fst (download_month read_lines net a w) = Exit 0"
  shows "\<not> path_exists (snd (download_month read_lines net a w)) (warc_paths_local a)"
proof (cases "path_exists w (warc_paths_local a)")
  case True
  then have "download_month read_lines net a w = fetch_listed read_lines net a w"
    by (simp add: download_month_def)
  then show ?thesis using assms fetch_listed_exit0 by simp
next
  case False
  obtain x w1 where d: "download_with_retries net (BASE_URL @ WARC_PATHS_FILE a) (warc_paths_local a) 5 10 w = (x, w1)"
    by (cases "download_with_retries net (BASE_URL @ WARC_PATHS_FILE a) (warc_paths_local a) 5 10 w")
  from assms False d have "download_month read_lines net a w = fetch_listed read_lines net a w1"
    by (simp add: download_month_def split: sum.splits if_splits)
  then show ?thesis using assms fetch_listed_exit0 by simp
qed

lemma cleanup_requests [simp]: "requests (cleanup a w) = requests w"
  by (simp add: cleanup_def Let_def)

lemma limit_files_effects [simp]:
  "requests (snd (limit_files m fp w)) = requests w"
  "unwritable (snd (limit_files m fp w)) = unwritable w"
  "files (snd (limit_files m fp w)) = files w"
  by (simp_all add: limit_files_def split: option.splits)

lemma limit_files_first_k:
  "0 < k \<Longrightarrow> limit_files (Some k) fp w = (take (nat k) fp, emit INFO (LimitedTo k) w)"
  by (simp add: limit_files_def slice_to_def)

subsection \<open>Traces of the tasks and of the pool\<close>

lemma try_download_mono:
  "path_exists w q \<Longrightarrow> path_exists (snd (try_download net url lp w)) q"
  by (simp add: try_download_def Let_def path_exists_def split: response.splits)

lemma try_download_log:
  "\<exists>ls. log (snd (try_download net url lp w)) = log w @ ls"
  by (simp add: try_download_def Let_def split: response.splits)

lemma retry_loop_mono:
  "path_exists w q \<Longrightarrow> path_exists (snd (retry_loop net url lp r n wt w)) q"
proof (induction n arbitrary: wt w)
  case 0
  then show ?case by (simp add: path_exists_def)
next
  case (Suc n)
  obtain x w' where td: "try_download net url lp w = (x, w')" by (cases "try_download net url lp w")
  have e: "path_exists w' q" using try_download_mono[OF Suc.prems, of net url lp] td by simp
  let ?w = "sleep wt (emit WARNING (Retrying url wt) w')"
  have "path_exists ?w q" using e by (simp add: path_exists_def)
  from Suc.IH[OF this] show ?case using td e by (simp split: sum.splits)
qed

lemma retry_loop_log:
  "\<exists>ls. log (snd (retry_loop net url lp r n wt w)) = log w @ ls"
proof (induction n arbitrary: wt w)
  case 0
  show ?case by simp
next
  case (Suc n)
  obtain x w' where td: "try_download net url lp w = (x, w')" by (cases "try_download net url lp w")
  obtain l1 where l1: "log w' = log w @ l1" using try_download_log[of net url lp w] td by auto
  let ?w = "sleep wt (emit WARNING (Retrying url wt) w')"
  obtain l2 where l2: "log (snd (retry_loop net url lp r n (wt * 2) ?w)) = log ?w @ l2"
    using Suc.IH[of "wt * 2" ?w] by blast
  show ?case
  proof (cases x)
    case (Inr u)
    then show ?thesis using td l1 by simp
  next
    case (Inl e)
    show ?thesis
    proof (cases "e = RequestException")
      case True
      then show ?thesis using td Inl l1 l2 by simp
    next
      case False
      then show ?thesis using td Inl l1 by simp
    qed
  qed
qed

lemma retry_loop_requests_pos:
  "\<exists>k. 0 < k \<and> requests (snd (retry_loop net url lp r (Suc n) wt w)) = requests w @ replicate k url"
proof -
  obtain x w' where td: "try_download net url lp w = (x, w')" by (cases "try_download net url lp w")
  have rq: "requests w' = requests w @ [url]" using try_download_requests[of net url lp w] td by simp
  let ?w = "sleep wt (emit WARNING (Retrying url wt) w')"
  obtain k where k: "requests (snd (retry_loop net url lp r n (wt * 2) ?w)) = requests ?w @ replicate k url"
    using retry_loop_requests[of n net url lp r "wt * 2" ?w] by blast
  have one: "requests w' = requests w @ replicate (Suc 0) url" using rq by simp
  have more: "requests ?w @ replicate k url = requests w @ replicate (Suc k) url"
    using rq replicate_app_Cons_same by simp
  show ?thesis
  proof (cases x)
    case (Inr u)
    then show ?thesis using td one by (intro exI[of _ "Suc 0"]) simp
  next
    case (Inl e)
    show ?thesis
    proof (cases "e = RequestException")
      case True
      then show ?thesis using td Inl k more by (intro exI[of _ "Suc k"]) simp
    next
      case False
      then show ?thesis using td Inl one by (intro exI[of _ "Suc 0"]) simp
    qed
  qed
qed

lemma download_warc_file_mono:
  "path_exists w q \<Longrightarrow> path_exists (snd (download_warc_file net dir p w)) q"
proof -
  assume a: "path_exists w q"
  obtain x w' where d: "download_with_retries net (DOWNLOAD_URL @ p) (local_filename dir p) 5 10 w = (x, w')"
    by (cases "download_with_retries net (DOWNLOAD_URL @ p) (local_filename dir p) 5 10 w")
  have "path_exists w' q"
    using retry_loop_mono[OF a, of net "DOWNLOAD_URL @ p" "local_filename dir p" 5 5 10] d
    by (simp add: download_with_retries_def)
  then show ?thesis using a d
    by (simp add: download_warc_file_def Let_def split: sum.splits)
qed

text \<open>What one task leaves in the request log and in the log.\<close>

lemma download_warc_file_trace:
  "\<exists>k ls. requests (snd (download_warc_file net dir p w)) =
            requests w @ replicate k (DOWNLOAD_URL @ p) \<and>
          log (snd (download_warc_file net dir p w)) = log w @ ls \<and>
          (0 < k \<longrightarrow> \<not> path_exists w (local_filename dir p)) \<and>
          (0 < k \<or> (INFO, AlreadyExists (local_filename dir p)) \<in> set ls)"
proof (cases "path_exists w (local_filename dir p)")
  case True
  then show ?thesis
    by (intro exI[of _ 0] exI[of _ "[(INFO, AlreadyExists (local_filename dir p))]"])
      (simp add: download_warc_file_skip)
next
  case False
  obtain x w' where d: "download_with_retries net (DOWNLOAD_URL @ p) (local_filename dir p) 5 10 w = (x, w')"
    by (cases "download_with_retries net (DOWNLOAD_URL @ p) (local_filename dir p) 5 10 w")
  have five: "(5::nat) = Suc 4" by simp
  obtain k where k: "0 < k" "requests w' = requests w @ replicate k (DOWNLOAD_URL @ p)"
    using retry_loop_requests_pos[of net "DOWNLOAD_URL @ p" "local_filename dir p" 5 4 10 w] d
    unfolding download_with_retries_def five[symmetric] by auto
  obtain ls where ls: "log w' = log w @ ls"
    using retry_loop_log[of net "DOWNLOAD_URL @ p" "local_filename dir p" 5 5 10 w] d
    by (auto simp: download_with_retries_def)
  have s: "snd (download_warc_file net dir p w) = w'"
    using d False by (simp add: download_warc_file_def Let_def split: sum.splits)
  show ?thesis unfolding s using k ls False by (intro exI[of _ k] exI[of _ ls]) simp
qed

lemma executor_map_mono:
  "path_exists w q \<Longrightarrow> path_exists (snd (executor_map net dir ps w)) q"
proof (induction ps arbitrary: w)
  case Nil
  then show ?case by simp
next
  case (Cons p ps)
  obtain x w' where d: "download_warc_file net dir p w = (x, w')" by (cases "download_warc_file net dir p w")
  have e: "path_exists w' q" using download_warc_file_mono[OF Cons.prems, of net dir p] d by simp
  obtain y w'' where m: "executor_map net dir ps w' = (y, w'')" by (cases "executor_map net dir ps w'")
  have "path_exists w'' q" using Cons.IH[OF e] m by simp
  then show ?case using d e m by (simp split: sum.splits)
qed

lemma executor_map_trace:
  "\<exists>rs ls. requests (snd (executor_map net dir ps w)) = requests w @ rs \<and>
           log (snd (executor_map net dir ps w)) = log w @ ls \<and>
           set rs \<subseteq> (\<lambda>p. DOWNLOAD_URL @ p) ` {p \<in> set ps. \<not> path_exists w (local_filename dir p)} \<and>
           ((\<exists>out. fst (executor_map net dir ps w) = Inr out) \<longrightarrow>
              (\<forall>p\<in>set ps. DOWNLOAD_URL @ p \<in> set rs \<or>
                 (INFO, AlreadyExists (local_filename dir p)) \<in> set ls))"
proof (induction ps arbitrary: w)
  case Nil
  show ?case by simp
next
  case (Cons p ps)
  let ?U = "\<lambda>p. DOWNLOAD_URL @ p"
  obtain x w' where d: "download_warc_file net dir p w = (x, w')" by (cases "download_warc_file net dir p w")
  obtain k l1 where t: "requests w' = requests w @ replicate k (?U p)" "log w' = log w @ l1"
      "0 < k \<longrightarrow> \<not> path_exists w (local_filename dir p)"
      "0 < k \<or> (INFO, AlreadyExists (local_filename dir p)) \<in> set l1"
    using download_warc_file_trace[of net dir p w] d by auto
  obtain y w'' where m: "executor_map net dir ps w' = (y, w'')" by (cases "executor_map net dir ps w'")
  obtain rs l2 where ih: "requests w'' = requests w' @ rs" "log w'' = log w' @ l2"
      "set rs \<subseteq> ?U ` {q \<in> set ps. \<not> path_exists w' (local_filename dir q)}"
      "(\<exists>out. y = Inr out) \<longrightarrow>
         (\<forall>q\<in>set ps. ?U q \<in> set rs \<or> (INFO, AlreadyExists (local_filename dir q)) \<in> set l2)"
    using Cons.IH[of w'] m by auto
  have mono: "\<And>q. \<not> path_exists w' q \<Longrightarrow> \<not> path_exists w q"
    using download_warc_file_mono[of w _ net dir p] d by auto
  have a: "set (replicate k (?U p)) \<subseteq> ?U ` {q \<in> set (p # ps). \<not> path_exists w (local_filename dir q)}"
    using t(3) by (cases "k = 0") auto
  have b: "set rs \<subseteq> ?U ` {q \<in> set (p # ps). \<not> path_exists w (local_filename dir q)}"
    using ih(3) mono by auto
  have first: "?U p \<in> set (replicate k (?U p)) \<or> (INFO, AlreadyExists (local_filename dir p)) \<in> set l1"
    using t(4) by (cases "k = 0") auto
  show ?case
  proof (cases x)
    case (Inl e)
    then have s: "executor_map net dir (p # ps) w = (Inl e, w')" using d by simp
    show ?thesis unfolding s using t(1,2) a
      by (intro exI[of _ "replicate k (?U p)"] exI[of _ l1]) simp
  next
    case (Inr r)
    show ?thesis
    proof (cases y)
      case (Inl e)
      then have s: "executor_map net dir (p # ps) w = (Inl e, w'')" using d m Inr by simp
      show ?thesis unfolding s using t(1,2) ih(1,2) a b
        by (intro exI[of _ "replicate k (?U p) @ rs"] exI[of _ "l1 @ l2"]) simp
    next
      case (Inr out)
      then have s: "executor_map net dir (p # ps) w = (Inr (r # out), w'')"
        using d m \<open>x = Inr r\<close> by simp
      have all: "\<forall>q\<in>set (p # ps). ?U q \<in> set (replicate k (?U p) @ rs) \<or>
          (INFO, AlreadyExists (local_filename dir q)) \<in> set (l1 @ l2)"
        using first ih(4) Inr by auto
      show ?thesis unfolding s using t(1,2) ih(1,2) a b all
        by (intro exI[of _ "replicate k (?U p) @ rs"] exI[of _ "l1 @ l2"]) simp
    qed
  qed
qed

subsection \<open>Runs against a server that answers\<close>

lemma try_download_served:
  assumes "net (length (requests w)) url = Body cs True" and "lp \<notin> unwritable w"
  shows "fst (try_download net url lp w) = Inr ()"
    and "files (snd (try_download net url lp w)) = (files w)(lp \<mapsto> concat cs)"
  using assms by (simp_all add: try_download_def Let_def)

lemma retry_loop_served:
  assumes "net (length (requests w)) url = Body cs True" and "lp \<notin> unwritable w"
  shows "fst (retry_loop net url lp r (Suc n) wt w) = Inr True"
    and "files (snd (retry_loop net url lp r (Suc n) wt w)) = (files w)(lp \<mapsto> concat cs)"
    and "requests (snd (retry_loop net url lp r (Suc n) wt w)) = requests w @ [url]"
proof -
  obtain x w' where td: "try_download net url lp w = (x, w')" by (cases "try_download net url lp w")
  have x: "x = Inr ()" using try_download_served(1)[where net = net, OF assms] td by simp
  have f: "files w' = (files w)(lp \<mapsto> concat cs)" using try_download_served(2)[where net = net, OF assms] td by simp
  have r: "requests w' = requests w @ [url]" using try_download_requests[of net url lp w] td by simp
  show "fst (retry_loop net url lp r (Suc n) wt w) = Inr True"
    and "files (snd (retry_loop net url lp r (Suc n) wt w)) = (files w)(lp \<mapsto> concat cs)"
    and "requests (snd (retry_loop net url lp r (Suc n) wt w)) = requests w @ [url]"
    using td x f r by simp_all
qed

lemma served_Body: "served r \<Longrightarrow> \<exists>cs. r = Body cs True"
  by (cases r) (simp_all add: served_def)

lemma download_warc_file_served:
  assumes "\<forall>n. served (net n (DOWNLOAD_URL @ p))" and "local_filename dir p \<notin> unwritable w"
  shows "fst (download_warc_file net dir p w) = Inr None \<and>
         path_exists (snd (download_warc_file net dir p w)) (local_filename dir p)"
proof (cases "path_exists w (local_filename dir p)")
  case True
  then show ?thesis by (simp add: download_warc_file_skip)
next
  case False
  let ?u = "DOWNLOAD_URL @ p" and ?l = "local_filename dir p"
  obtain cs where cs: "net (length (requests w)) ?u = Body cs True"
    using assms(1) served_Body by blast
  have five: "(5::nat) = Suc 4" by simp
  obtain x w' where d: "download_with_retries net ?u ?l 5 10 w = (x, w')"
    by (cases "download_with_retries net ?u ?l 5 10 w")
  have x: "x = Inr True" and f: "files w' = (files w)(?l \<mapsto> concat cs)"
    using retry_loop_served(1,2)[where net = net and r = 5 and n = 4 and wt = 10, OF cs assms(2)] d
    unfolding download_with_retries_def five[symmetric] by simp_all
  show ?thesis using d x f False
    by (simp add: download_warc_file_def Let_def path_exists_def)
qed

lemma executor_map_served:
  assumes "\<forall>p\<in>set ps. \<forall>n. served (net n (DOWNLOAD_URL @ p))"
    and "\<forall>p\<in>set ps. local_filename dir p \<notin> unwritable w"
  shows "fst (executor_map net dir ps w) = Inr (replicate (length ps) None) \<and>
         (\<forall>p\<in>set ps. path_exists (snd (executor_map net dir ps w)) (local_filename dir p))"
  using assms
proof (induction ps arbitrary: w)
  case Nil
  show ?case by simp
next
  case (Cons p ps)
  obtain x w' where d: "download_warc_file net dir p w = (x, w')" by (cases "download_warc_file net dir p w")
  have x: "x = Inr None" and e: "path_exists w' (local_filename dir p)"
    using download_warc_file_served[of net p dir w] Cons.prems d by simp_all
  have u: "unwritable w' = unwritable w" using download_warc_file_unwritable[of net dir p w] d by simp
  obtain y w'' where m: "executor_map net dir ps w' = (y, w'')" by (cases "executor_map net dir ps w'")
  have ih: "y = Inr (replicate (length ps) None)"
      "\<forall>q\<in>set ps. path_exists w'' (local_filename dir q)"
    using Cons.IH[of w'] Cons.prems u m by simp_all
  have e': "path_exists w'' (local_filename dir p)"
    using executor_map_mono[OF e, of net dir ps] m by simp
  show ?case using d x m ih e' by simp
qed

lemma pool_idempotent_resume:
  assumes "\<forall>p\<in>set ps. \<forall>n. served (net n (DOWNLOAD_URL @ p))"
    and "\<forall>p\<in>set ps. local_filename dir p \<notin> unwritable w"
  shows "fst (executor_map net dir ps w) = Inr (replicate (length ps) None) \<and>
         (\<forall>p\<in>set ps. path_exists (snd (executor_map net dir ps w)) (local_filename dir p)) \<and>
         fst (executor_map net' dir ps (snd (executor_map net dir ps w))) =
           Inr (replicate (length ps) None) \<and>
         requests (snd (executor_map net' dir ps (snd (executor_map net dir ps w)))) =
           requests (snd (executor_map net dir ps w)) \<and>
         files (snd (executor_map net' dir ps (snd (executor_map net dir ps w)))) =
           files (snd (executor_map net dir ps w))"
  using executor_map_served[where net = net, OF assms]
    executor_map_all_exist[of ps "snd (executor_map net dir ps w)" dir net']
  by simp

subsection \<open>Traces of the script\<close>

lemma limit_files_fst: "fst (limit_files m xs w) = fst (limit_files m xs w')"
  by (simp add: limit_files_def split: option.splits)

lemma limit_files_log: "\<exists>ls. log (snd (limit_files m xs w)) = log w @ ls"
  by (simp add: limit_files_def split: option.splits)

lemma cleanup_effects [simp]:
  "files (cleanup a w) = (files w)(warc_paths_local a := None)"
  "unwritable (cleanup a w) = unwritable w"
  "log (cleanup a w) = log w @ [(INFO, CleaningUp), (INFO, AllDownloaded)]"
  by (auto simp: cleanup_def Let_def path_exists_def)

text \<open>Lines 91 to 120 as the pool over the chosen paths, followed by the cleanup.\<close>

lemma fetch_listed_pool:
  assumes "files w (warc_paths_local a) = Some bytes" and "read_lines bytes = Some lines"
  shows "\<exists>w3 l0. files w3 = files w \<and> requests w3 = requests w \<and>
           unwritable w3 = unwritable w \<and> log w3 = log w @ l0 \<and>
           fetch_listed read_lines net a w =
             (case executor_map net (DOWNLOAD_FOLDER a)
                     (fst (limit_files (max_files a) (map strip lines) w)) w3 of
                (Inl e, w4) \<Rightarrow> (Uncaught e, w4)
              | (Inr rs, w4) \<Rightarrow> (Exit 0, cleanup a w4))"
proof -
  let ?w1 = "emit INFO (Extracting (warc_paths_local a)) w"
  obtain fp w2 where lf: "limit_files (max_files a) (map strip lines) ?w1 = (fp, w2)"
    by (cases "limit_files (max_files a) (map strip lines) ?w1")
  have fp: "fst (limit_files (max_files a) (map strip lines) w) = fp"
    using limit_files_fst[of "max_files a" "map strip lines" w ?w1] lf by simp
  let ?w3 = "emit INFO (Starting (length fp)) w2"
  have e: "files w2 = files w" "requests w2 = requests w" "unwritable w2 = unwritable w"
    using limit_files_effects[of "max_files a" "map strip lines" ?w1] lf by simp_all
  obtain l where l: "log w2 = log ?w1 @ l"
    using limit_files_log[of "max_files a" "map strip lines" ?w1] lf by auto
  obtain r w4 where em: "executor_map net (DOWNLOAD_FOLDER a) fp ?w3 = (r, w4)"
    by (cases "executor_map net (DOWNLOAD_FOLDER a) fp ?w3")
  have u: "fetch_listed read_lines net a w =
             (case r of Inl e \<Rightarrow> (Uncaught e, w4) | Inr rs \<Rightarrow> (Exit 0, cleanup a w4))"
    by (rule fetch_listed_unfold[where read_lines = read_lines, OF assms lf em])
  have eq: "fetch_listed read_lines net a w =
             (case executor_map net (DOWNLOAD_FOLDER a) fp ?w3 of
                (Inl e, w4) \<Rightarrow> (Uncaught e, w4)
              | (Inr rs, w4) \<Rightarrow> (Exit 0, cleanup a w4))"
    using u em by (cases r) simp_all
  show ?thesis unfolding fp using e l eq
    by (intro exI[of _ ?w3] exI[of _ "(INFO, Extracting (warc_paths_local a)) # l @ [(INFO, Starting (length fp))]"])
      simp
qed

lemma fetch_listed_trace:
  assumes "files w (warc_paths_local a) = Some bytes" and "read_lines bytes = Some lines"
  shows "\<exists>rs ls. requests (snd (fetch_listed read_lines net a w)) = requests w @ rs \<and>
           log (snd (fetch_listed read_lines net a w)) = log w @ ls \<and>
           set rs \<subseteq> (\<lambda>p. DOWNLOAD_URL @ p) `
             {p \<in> set (fst (limit_files (max_files a) (map strip lines) w)).
                \<not> path_exists w (local_filename (DOWNLOAD_FOLDER a) p)} \<and>
           (fst (fetch_listed read_lines net a w) = Exit 0 \<longrightarrow>
              (\<forall>p\<in>set (fst (limit_files (max_files a) (map strip lines) w)).
                 DOWNLOAD_URL @ p \<in> set rs \<or>
                 (INFO, AlreadyExists (local_filename (DOWNLOAD_FOLDER a) p)) \<in> set ls))"
proof -
  let ?fp = "fst (limit_files (max_files a) (map strip lines) w)"
  let ?dir = "DOWNLOAD_FOLDER a"
  obtain w3 l0 where w3: "files w3 = files w" "requests w3 = requests w" "log w3 = log w @ l0"
    and eq: "fetch_listed read_lines net a w =
             (case executor_map net ?dir ?fp w3 of
                (Inl e, w4) \<Rightarrow> (Uncaught e, w4)
              | (Inr rs, w4) \<Rightarrow> (Exit 0, cleanup a w4))"
    using fetch_listed_pool[where read_lines = read_lines, OF assms, of net] by blast
  obtain r w4 where em: "executor_map net ?dir ?fp w3 = (r, w4)"
    by (cases "executor_map net ?dir ?fp w3")
  obtain rs ls where t: "requests w4 = requests w3 @ rs" "log w4 = log w3 @ ls"
      "set rs \<subseteq> (\<lambda>p. DOWNLOAD_URL @ p) ` {p \<in> set ?fp. \<not> path_exists w3 (local_filename ?dir p)}"
      "(\<exists>out. r = Inr out) \<longrightarrow>
         (\<forall>p\<in>set ?fp. DOWNLOAD_URL @ p \<in> set rs \<or>
            (INFO, AlreadyExists (local_filename ?dir p)) \<in> set ls)"
    using executor_map_trace[of net ?dir ?fp w3] em by auto
  have pe: "\<And>q. path_exists w3 q = path_exists w q" using w3(1) by (simp add: path_exists_def)
  show ?thesis
  proof (cases r)
    case (Inl e)
    then have s: "fetch_listed read_lines net a w = (Uncaught e, w4)" using eq em by simp
    show ?thesis unfolding s using t(1,2,3) w3 pe
      by (intro exI[of _ rs] exI[of _ "l0 @ ls"]) simp
  next
    case (Inr out)
    then have s: "fetch_listed read_lines net a w = (Exit 0, cleanup a w4)" using eq em by simp
    have all: "\<forall>p\<in>set ?fp. DOWNLOAD_URL @ p \<in> set rs \<or>
        (INFO, AlreadyExists (local_filename ?dir p)) \<in> set (l0 @ ls @ [(INFO, CleaningUp), (INFO, AllDownloaded)])"
      using t(4) Inr by auto
    show ?thesis unfolding s using t(1,2,3) w3 pe all
      by (intro exI[of _ rs] exI[of _ "l0 @ ls @ [(INFO, CleaningUp), (INFO, AllDownloaded)]"]) simp
  qed
qed

lemma fetch_listed_requests:
  "\<exists>rs. requests (snd (fetch_listed read_lines net a w)) = requests w @ rs \<and>
        set rs \<subseteq> (\<lambda>p. DOWNLOAD_URL @ p) `
          {p. \<not> path_exists w (local_filename (DOWNLOAD_FOLDER a) p)}"
proof (cases "files w (warc_paths_local a)")
  case None
  then show ?thesis by (simp add: fetch_listed_def Let_def)
next
  case (Some bytes)
  show ?thesis
  proof (cases "read_lines bytes")
    case None
    then show ?thesis using Some by (simp add: fetch_listed_def Let_def)
  next
    case (Some lines)
    obtain rs where "requests (snd (fetch_listed read_lines net a w)) = requests w @ rs"
      "set rs \<subseteq> (\<lambda>p. DOWNLOAD_URL @ p) `
             {p \<in> set (fst (limit_files (max_files a) (map strip lines) w)).
                \<not> path_exists w (local_filename (DOWNLOAD_FOLDER a) p)}"
      using fetch_listed_trace[where read_lines = read_lines, OF \<open>files w (warc_paths_local a) = Some bytes\<close> Some, of net]
      by blast
    then show ?thesis by (intro exI[of _ rs]) auto
  qed
qed

lemma download_with_retries_mono:
  "path_exists w q \<Longrightarrow> path_exists (snd (download_with_retries net url lp r b w)) q"
  by (simp add: download_with_retries_def retry_loop_mono)

lemma download_with_retries_requests:
  "\<exists>k. requests (snd (download_with_retries net url lp r b w)) = requests w @ replicate k url"
  using retry_loop_requests[of r net url lp r b w] by (auto simp: download_with_retries_def)

text \<open>Every request of a run is for the listing or for a path with no file at its destination.\<close>

lemma main_requests:
  "\<exists>rs. requests (snd (main read_lines net a w)) = requests w @ rs \<and>
        set rs \<subseteq> insert (BASE_URL @ WARC_PATHS_FILE a)
          ((\<lambda>p. DOWNLOAD_URL @ p) ` {p. \<not> path_exists w (local_filename (DOWNLOAD_FOLDER a) p)})"
proof (cases "year_month_invalid (year_month a)")
  case True
  then show ?thesis by (simp add: main_def)
next
  case False
  let ?l = "warc_paths_local a" and ?u = "BASE_URL @ WARC_PATHS_FILE a"
  let ?M = "(\<lambda>p. DOWNLOAD_URL @ p) ` {p. \<not> path_exists w (local_filename (DOWNLOAD_FOLDER a) p)}"
  show ?thesis
  proof (cases "path_exists w ?l")
    case True
    then have "main read_lines net a w = fetch_listed read_lines net a w"
      using False by (simp add: main_def download_month_def)
    then show ?thesis using fetch_listed_requests[of read_lines net a w] by auto
  next
    case absent: False
    obtain x w1 where d: "download_with_retries net ?u ?l 5 10 w = (x, w1)"
      by (cases "download_with_retries net ?u ?l 5 10 w")
    obtain k where k: "requests w1 = requests w @ replicate k ?u"
      using download_with_retries_requests[of net ?u ?l 5 10 w] d by auto
    have sub: "set (replicate k ?u) \<subseteq> insert ?u ?M" by (cases "k = 0") auto
    have m: "main read_lines net a w =
             (case x of Inl e \<Rightarrow> (Uncaught e, w1)
              | Inr ok \<Rightarrow> if \<not> ok then (Exit 1, emit ERROR ManifestFailed w1)
                          else fetch_listed read_lines net a w1)"
      using False absent d by (simp add: main_def download_month_def Let_def split: sum.splits)
    show ?thesis
    proof (cases x)
      case (Inl e)
      then show ?thesis using m k sub by (intro exI[of _ "replicate k ?u"]) simp
    next
      case (Inr ok)
      show ?thesis
      proof (cases ok)
        case False
        then show ?thesis using m Inr k sub by (intro exI[of _ "replicate k ?u"]) simp
      next
        case True
        obtain rs where rs: "requests (snd (fetch_listed read_lines net a w1)) = requests w1 @ rs"
          "set rs \<subseteq> (\<lambda>p. DOWNLOAD_URL @ p) `
             {p. \<not> path_exists w1 (local_filename (DOWNLOAD_FOLDER a) p)}"
          using fetch_listed_requests[of read_lines net a w1] by blast
        have mono: "\<And>q. \<not> path_exists w1 q \<Longrightarrow> \<not> path_exists w q"
          using download_with_retries_mono[of w _ net ?u ?l 5 10] d by auto
        have "set rs \<subseteq> ?M" using rs(2) mono by auto
        then have "set (replicate k ?u @ rs) \<subseteq> insert ?u ?M" using sub by auto
        then show ?thesis using m Inr True k rs(1)
          by (intro exI[of _ "replicate k ?u @ rs"]) simp
      qed
    qed
  qed
qed

text \<open>A run that starts without the listing, against a server that serves it.\<close>

lemma main_served:
  assumes valid: "\<not> year_month_invalid (year_month a)"
    and fresh: "\<not> path_exists w (warc_paths_local a)"
    and listing: "\<forall>n. net n (BASE_URL @ WARC_PATHS_FILE a) = Body chunks True"
    and decode: "read_lines (concat chunks) = Some lines"
    and writable: "unwritable w = {}"
  shows "\<exists>w3. files w3 = (files w)(warc_paths_local a \<mapsto> concat chunks) \<and>
           requests w3 = requests w @ [BASE_URL @ WARC_PATHS_FILE a] \<and>
           unwritable w3 = {} \<and>
           main read_lines net a w =
             (case executor_map net (DOWNLOAD_FOLDER a)
                     (fst (limit_files (max_files a) (map strip lines) w)) w3 of
                (Inl e, w4) \<Rightarrow> (Uncaught e, w4)
              | (Inr rs, w4) \<Rightarrow> (Exit 0, cleanup a w4))"
proof -
  let ?l = "warc_paths_local a" and ?u = "BASE_URL @ WARC_PATHS_FILE a"
  have five: "(5::nat) = Suc 4" by simp
  have b: "net (length (requests w)) ?u = Body chunks True" using listing by simp
  have nw: "?l \<notin> unwritable w" using writable by simp
  obtain x w1 where d: "download_with_retries net ?u ?l 5 10 w = (x, w1)"
    by (cases "download_with_retries net ?u ?l 5 10 w")
  have x: "x = Inr True" and f1: "files w1 = (files w)(?l \<mapsto> concat chunks)"
    and r1: "requests w1 = requests w @ [?u]"
    using retry_loop_served[where net = net and r = 5 and n = 4 and wt = 10, OF b nw] d
    unfolding download_with_retries_def five[symmetric] by simp_all
  have u1: "unwritable w1 = {}"
    using download_with_retries_unwritable[of net ?u ?l 5 10 w] d writable by simp
  have m: "main read_lines net a w = fetch_listed read_lines net a w1"
    using valid fresh d x by (simp add: main_def download_month_def Let_def)
  have fb: "files w1 ?l = Some (concat chunks)" using f1 by simp
  obtain w3 where w3: "files w3 = files w1" "requests w3 = requests w1" "unwritable w3 = unwritable w1"
    and eq: "fetch_listed read_lines net a w1 =
             (case executor_map net (DOWNLOAD_FOLDER a)
                     (fst (limit_files (max_files a) (map strip lines) w1)) w3 of
                (Inl e, w4) \<Rightarrow> (Uncaught e, w4)
              | (Inr rs, w4) \<Rightarrow> (Exit 0, cleanup a w4))"
    using fetch_listed_pool[where read_lines = read_lines, OF fb decode, of net] by blast
  have fp: "fst (limit_files (max_files a) (map strip lines) w1) =
            fst (limit_files (max_files a) (map strip lines) w)"
    by (rule limit_files_fst)
  show ?thesis using w3 f1 r1 u1 m eq unfolding fp
    by (intro exI[of _ w3]) simp
qed

lemma program_idempotent_resume:
  assumes valid: "\<not> year_month_invalid (year_month a)"
    and fresh: "\<not> path_exists w (warc_paths_local a)"
    and listing: "\<forall>n. net n (BASE_URL @ WARC_PATHS_FILE a) = Body chunks True"
    and decode: "read_lines (concat chunks) = Some lines"
    and objects: "\<forall>p\<in>set (fst (limit_files (max_files a) (map strip lines) w)).
                    \<forall>n. served (net n (DOWNLOAD_URL @ p))"
    and writable: "unwritable w = {}"
  shows "fst (main read_lines net a w) = Exit 0 \<and>
         fst (main read_lines net a (snd (main read_lines net a w))) = Exit 0 \<and>
         requests (snd (main read_lines net a (snd (main read_lines net a w)))) =
           requests (snd (main read_lines net a w)) @ [BASE_URL @ WARC_PATHS_FILE a] \<and>
         files (snd (main read_lines net a (snd (main read_lines net a w)))) =
           files (snd (main read_lines net a w))"
proof -
  let ?l = "warc_paths_local a" and ?u = "BASE_URL @ WARC_PATHS_FILE a"
  let ?dir = "DOWNLOAD_FOLDER a"
  let ?fp = "fst (limit_files (max_files a) (map strip lines) w)"
  \<comment> \<open>the first run\<close>
  obtain w3 where w3: "files w3 = (files w)(?l \<mapsto> concat chunks)" "unwritable w3 = {}"
    and m1: "main read_lines net a w =
             (case executor_map net ?dir ?fp w3 of
                (Inl e, w4) \<Rightarrow> (Uncaught e, w4)
              | (Inr rs, w4) \<Rightarrow> (Exit 0, cleanup a w4))"
    using main_served[where net = net and read_lines = read_lines, OF valid fresh listing decode writable]
    by blast
  obtain r w4 where em: "executor_map net ?dir ?fp w3 = (r, w4)"
    by (cases "executor_map net ?dir ?fp w3")
  have nw: "\<forall>p\<in>set ?fp. local_filename ?dir p \<notin> unwritable w3" using w3(2) by simp
  have r: "r = Inr (replicate (length ?fp) None)"
    and ex4: "\<forall>p\<in>set ?fp. path_exists w4 (local_filename ?dir p)"
    using executor_map_served[where net = net, OF objects nw] em by simp_all
  have u4: "unwritable w4 = {}" using executor_map_unwritable[of net ?dir ?fp w3] em w3(2) by simp
  let ?w1 = "cleanup a w4"
  have run1: "main read_lines net a w = (Exit 0, ?w1)" using m1 em r by simp
  have f1: "files ?w1 = (files w4)(?l := None)" by simp
  have fresh1: "\<not> path_exists ?w1 ?l" by (rule cleanup_removes)
  have u1: "unwritable ?w1 = {}" using u4 by simp
  have fp1: "fst (limit_files (max_files a) (map strip lines) ?w1) = ?fp"
    by (rule limit_files_fst)
  \<comment> \<open>the second run\<close>
  obtain v3 where v3: "files v3 = (files ?w1)(?l \<mapsto> concat chunks)"
      "requests v3 = requests ?w1 @ [?u]"
    and m2: "main read_lines net a ?w1 =
             (case executor_map net ?dir ?fp v3 of
                (Inl e, w4) \<Rightarrow> (Uncaught e, w4)
              | (Inr rs, w4) \<Rightarrow> (Exit 0, cleanup a w4))"
    using main_served[where net = net and read_lines = read_lines, OF valid fresh1 listing decode u1]
    unfolding fp1 by blast
  have all: "\<forall>p\<in>set ?fp. path_exists v3 (local_filename ?dir p)"
  proof
    fix p assume "p \<in> set ?fp"
    then have "path_exists w4 (local_filename ?dir p)" using ex4 by simp
    then show "path_exists v3 (local_filename ?dir p)"
      using v3(1) f1 by (simp add: path_exists_def)
  qed
  obtain r' v4 where em2: "executor_map net ?dir ?fp v3 = (r', v4)"
    by (cases "executor_map net ?dir ?fp v3")
  have r': "r' = Inr (replicate (length ?fp) None)" and rq: "requests v4 = requests v3"
    and fl: "files v4 = files v3"
    using executor_map_all_exist[OF all, of net] em2 by simp_all
  have run2: "main read_lines net a ?w1 = (Exit 0, cleanup a v4)" using m2 em2 r' by simp
  have files2: "files (cleanup a v4) = files ?w1"
    using fl v3(1) f1 by simp
  have req2: "requests (cleanup a v4) = requests ?w1 @ [?u]" using rq v3(2) by simp
  show ?thesis unfolding run1 using run2 files2 req2 by simp
qed

lemmas evals = empty_world_def dead_net_def truncating_net_def serving_net_def
  listing_only_net_def read_listing_def args_2023_09_def resumed_world_def readonly_world_def
  read_three_lines_def args_first_two_def listed_world_def read_nothing_def main_def download_month_def
  fetch_listed_def cleanup_def limit_files_def slice_to_def strip_def isspace_def download_warc_file_def
  local_filename_def download_with_retries_def try_download_def warc_paths_local_def
  DOWNLOAD_FOLDER_def WARC_PATHS_FILE_def BASE_URL_def DOWNLOAD_URL_def folder_def
  year_month_invalid_def path_join_def basename_def path_exists_def emit_def sleep_def
  request_fails_def fails_before_body_def served_def Let_def numeral_eq_Suc

subsection \<open>The retry ceiling\<close>

text \<open>
  Claim C2. When every request to the URL fails, \<open>download_with_retries\<close> makes exactly
  \<open>retries\<close> requests (5 by default) and returns \<open>False\<close>; it sleeps after each of them,
  \<open>backoff\<close> seconds (10 by default) the first time and twice the previous wait each
  time after, \<open>backoff * (2 ^ retries - 1)\<close> seconds in all. The destination is taken to
  be writable, as a request that fails in the body has opened it before.
\<close>

theorem retry_ceiling:
  assumes "\<forall>n. request_fails (net n url)" and "local_path \<notin> unwritable w"
  shows "fst (download_with_retries net url local_path retries backoff w) = Inr False \<and>
         requests (snd (download_with_retries net url local_path retries backoff w)) =
           requests w @ replicate retries url \<and>
         sleeps (snd (download_with_retries net url local_path retries backoff w)) =
           sleeps w @ map (\<lambda>i. backoff * 2 ^ i) [0..<retries] \<and>
         sum_list (map (\<lambda>i. backoff * 2 ^ i) [0..<retries]) = backoff * (2 ^ retries - 1)"
  using assms geometric_sum[of backoff retries]
    retry_loop_all_fail[where net = net and url = url and lp = local_path and w = w
      and r = retries and n = retries and wt = backoff]
  by (simp add: download_with_retries_def)

theorem retry_ceiling_witness:
  "(\<forall>n. request_fails (dead_net n ''https://data.commoncrawl.org/a/1.warc.gz'')) \<and>
   ''d/1.warc.gz'' \<notin> unwritable empty_world \<and>
   fst (download_with_retries dead_net ''https://data.commoncrawl.org/a/1.warc.gz''
          ''d/1.warc.gz'' 5 10 empty_world) = Inr False \<and>
   length (requests (snd (download_with_retries dead_net
          ''https://data.commoncrawl.org/a/1.warc.gz'' ''d/1.warc.gz'' 5 10 empty_world))) = 5 \<and>
   sleeps (snd (download_with_retries dead_net ''https://data.commoncrawl.org/a/1.warc.gz''
          ''d/1.warc.gz'' 5 10 empty_world)) = [10, 20, 40, 80, 160]"
proof -
  have h1: "\<forall>n. request_fails (dead_net n ''https://data.commoncrawl.org/a/1.warc.gz'')"
    by (simp add: dead_net_def request_fails_def)
  have h2: "''d/1.warc.gz'' \<notin> unwritable empty_world"
    by (simp add: empty_world_def)
  have m: "map (\<lambda>i. 10 * 2 ^ i) [0..<5] = [10, 20, 40, 80, 160 :: nat]"
    by (simp add: upt_rec numeral_eq_Suc)
  show ?thesis
    using h1 h2 m
      retry_ceiling[where net = dead_net and url = "''https://data.commoncrawl.org/a/1.warc.gz''"
        and local_path = "''d/1.warc.gz''" and w = empty_world and retries = 5 and backoff = 10]
    by (simp add: empty_world_def)
qed

subsection \<open>Failed attempts and the destination file\<close>

text \<open>
  Claim C1, as stated, fails: when the connection drops while the body is streamed, the
  attempt has already opened the destination, and the part received stays on disk. After
  five such attempts \<open>download_with_retries\<close> returns \<open>False\<close> and the file exists; a
  later \<open>download_warc_file\<close> for the same path skips it without a request.
\<close>

theorem partial_file_counterexample:
  "\<not> path_exists empty_world ''d/1.warc.gz'' \<and>
   request_fails (truncating_net 0 ''https://data.commoncrawl.org/a/1.warc.gz'') \<and>
   fst (download_with_retries truncating_net ''https://data.commoncrawl.org/a/1.warc.gz''
          ''d/1.warc.gz'' 5 10 empty_world) = Inr False \<and>
   files (snd (download_with_retries truncating_net ''https://data.commoncrawl.org/a/1.warc.gz''
          ''d/1.warc.gz'' 5 10 empty_world)) ''d/1.warc.gz'' = Some ''part'' \<and>
   download_warc_file serving_net ''d'' ''a/1.warc.gz''
     (snd (download_with_retries truncating_net ''https://data.commoncrawl.org/a/1.warc.gz''
          ''d/1.warc.gz'' 5 10 empty_world)) =
   (Inr None, emit INFO (AlreadyExists ''d/1.warc.gz'')
     (snd (download_with_retries truncating_net ''https://data.commoncrawl.org/a/1.warc.gz''
          ''d/1.warc.gz'' 5 10 empty_world)))"
  by (simp add: evals)

text \<open>
  Claim C1, amended. An attempt that fails before the body is read (no response, or a
  status that \<open>raise_for_status\<close> rejects) writes nothing; when every attempt fails that
  way, \<open>download_with_retries\<close> returns \<open>False\<close> and leaves the files as they were, so a
  destination that did not exist before does not exist after.
\<close>

theorem failure_before_body_writes_nothing:
  "(fails_before_body (net (length (requests w)) url) \<longrightarrow>
      fst (try_download net url local_path w) = Inl RequestException \<and>
      files (snd (try_download net url local_path w)) = files w) \<and>
   ((\<forall>n. fails_before_body (net n url)) \<longrightarrow>
      fst (download_with_retries net url local_path retries backoff w) = Inr False \<and>
      files (snd (download_with_retries net url local_path retries backoff w)) = files w \<and>
      path_exists (snd (download_with_retries net url local_path retries backoff w)) local_path
        = path_exists w local_path)"
  using try_download_before_body[of net w url local_path]
    retry_loop_before_body[where net = net and url = url and lp = local_path and w = w
      and r = retries and n = retries and wt = backoff]
  by (simp add: download_with_retries_def path_exists_def)

theorem failure_before_body_writes_nothing_witness:
  "fails_before_body (dead_net 0 ''https://data.commoncrawl.org/a/1.warc.gz'') \<and>
   fst (try_download dead_net ''https://data.commoncrawl.org/a/1.warc.gz'' ''d/1.warc.gz''
          empty_world) = Inl RequestException \<and>
   fst (download_with_retries dead_net ''https://data.commoncrawl.org/a/1.warc.gz''
          ''d/1.warc.gz'' 5 10 empty_world) = Inr False \<and>
   \<not> path_exists (snd (download_with_retries dead_net ''https://data.commoncrawl.org/a/1.warc.gz''
          ''d/1.warc.gz'' 5 10 empty_world)) ''d/1.warc.gz''"
proof -
  have h: "\<forall>n. fails_before_body (dead_net n ''https://data.commoncrawl.org/a/1.warc.gz'')"
    by (simp add: dead_net_def fails_before_body_def)
  have e: "\<not> path_exists empty_world ''d/1.warc.gz''"
    by (simp add: path_exists_def empty_world_def)
  have r: "length (requests empty_world) = 0" by (simp add: empty_world_def)
  show ?thesis
    using h e r
      failure_before_body_writes_nothing[where net = dead_net
        and url = "''https://data.commoncrawl.org/a/1.warc.gz''" and local_path = "''d/1.warc.gz''"
        and w = empty_world and retries = 5 and backoff = 10]
    by simp
qed

subsection \<open>Skipping what is on disk\<close>

text \<open>
  Claim C3, as stated, fails in its second half. With a server that serves everything,
  the second run of the script requests the listing again, as the first run removed its
  copy; with a server that cannot be reached, a second run of the pool over the same path
  makes five more requests, as no file was left.
\<close>

theorem second_run_fetches_counterexample:
  "fst (main read_listing serving_net args_2023_09 empty_world) = Exit 0 \<and>
   requests (snd (main read_listing serving_net args_2023_09 empty_world)) =
     [''https://data.commoncrawl.org/crawl-data/CC-NEWS/2023/09/warc.paths.gz'',
      ''https://data.commoncrawl.org/a/1.warc.gz''] \<and>
   requests (snd (main read_listing serving_net args_2023_09
       (snd (main read_listing serving_net args_2023_09 empty_world)))) =
     [''https://data.commoncrawl.org/crawl-data/CC-NEWS/2023/09/warc.paths.gz'',
      ''https://data.commoncrawl.org/a/1.warc.gz'',
      ''https://data.commoncrawl.org/crawl-data/CC-NEWS/2023/09/warc.paths.gz''] \<and>
   length (requests (snd (executor_map dead_net ''d'' [''a/1.warc.gz''] empty_world))) = 5 \<and>
   length (requests (snd (executor_map dead_net ''d'' [''a/1.warc.gz'']
       (snd (executor_map dead_net ''d'' [''a/1.warc.gz''] empty_world))))) = 10"
  by (simp add: evals)

text \<open>
  Claim C3, amended. When the destination of a path exists, \<open>download_warc_file\<close> returns
  after logging the skip: no request, no file changed. The pool requests only paths whose
  destination is missing, and the script only the listing and such paths. Consequently a
  second run of the pool, after a first one against a server that served every path,
  makes no request and changes no file; and a second run of the script, after a first one
  that started without the listing against a server that serves the listing and every
  listed path, requests the listing again and nothing else, and leaves the same files.
  The destinations are taken to be writable.
\<close>

theorem existing_files_are_skipped:
  "(path_exists w (local_filename dir path) \<longrightarrow>
      download_warc_file net dir path w =
        (Inr None, emit INFO (AlreadyExists (local_filename dir path)) w)) \<and>
   ((\<forall>p\<in>set paths. path_exists w (local_filename dir p)) \<longrightarrow>
      fst (executor_map net dir paths w) = Inr (replicate (length paths) None) \<and>
      requests (snd (executor_map net dir paths w)) = requests w \<and>
      files (snd (executor_map net dir paths w)) = files w) \<and>
   (\<exists>rs. requests (snd (executor_map net dir paths w)) = requests w @ rs \<and>
      set rs \<subseteq> (\<lambda>p. DOWNLOAD_URL @ p) `
        {p \<in> set paths. \<not> path_exists w (local_filename dir p)}) \<and>
   ((\<forall>p\<in>set paths. \<forall>n. served (net n (DOWNLOAD_URL @ p))) \<and>
    (\<forall>p\<in>set paths. local_filename dir p \<notin> unwritable w) \<longrightarrow>
      fst (executor_map net dir paths w) = Inr (replicate (length paths) None) \<and>
      (\<forall>p\<in>set paths.
         path_exists (snd (executor_map net dir paths w)) (local_filename dir p)) \<and>
      fst (executor_map net' dir paths (snd (executor_map net dir paths w))) =
        Inr (replicate (length paths) None) \<and>
      requests (snd (executor_map net' dir paths (snd (executor_map net dir paths w)))) =
        requests (snd (executor_map net dir paths w)) \<and>
      files (snd (executor_map net' dir paths (snd (executor_map net dir paths w)))) =
        files (snd (executor_map net dir paths w))) \<and>
   (\<exists>rs. requests (snd (main read_lines net a w)) = requests w @ rs \<and>
      set rs \<subseteq> insert (BASE_URL @ WARC_PATHS_FILE a)
        ((\<lambda>p. DOWNLOAD_URL @ p) `
           {p. \<not> path_exists w (local_filename (DOWNLOAD_FOLDER a) p)})) \<and>
   (\<not> year_month_invalid (year_month a) \<and> \<not> path_exists w (warc_paths_local a) \<and>
    (\<forall>n. net n (BASE_URL @ WARC_PATHS_FILE a) = Body chunks True) \<and>
    read_lines (concat chunks) = Some lines \<and>
    (\<forall>p\<in>set (fst (limit_files (max_files a) (map strip lines) w)).
       \<forall>n. served (net n (DOWNLOAD_URL @ p))) \<and>
    unwritable w = {} \<longrightarrow>
      fst (main read_lines net a w) = Exit 0 \<and>
      fst (main read_lines net a (snd (main read_lines net a w))) = Exit 0 \<and>
      requests (snd (main read_lines net a (snd (main read_lines net a w)))) =
        requests (snd (main read_lines net a w)) @ [BASE_URL @ WARC_PATHS_FILE a] \<and>
      files (snd (main read_lines net a (snd (main read_lines net a w)))) =
        files (snd (main read_lines net a w)))"
proof (intro conjI impI)
  assume "path_exists w (local_filename dir path)"
  then show "download_warc_file net dir path w =
      (Inr None, emit INFO (AlreadyExists (local_filename dir path)) w)"
    by (rule download_warc_file_skip)
next
  assume h: "\<forall>p\<in>set paths. path_exists w (local_filename dir p)"
  show "fst (executor_map net dir paths w) = Inr (replicate (length paths) None)"
    and "requests (snd (executor_map net dir paths w)) = requests w"
    and "files (snd (executor_map net dir paths w)) = files w"
    using executor_map_all_exist[OF h, of net] by simp_all
next
  show "\<exists>rs. requests (snd (executor_map net dir paths w)) = requests w @ rs \<and>
      set rs \<subseteq> (\<lambda>p. DOWNLOAD_URL @ p) `
        {p \<in> set paths. \<not> path_exists w (local_filename dir p)}"
    using executor_map_trace[of net dir paths w] by blast
next
  assume h: "(\<forall>p\<in>set paths. \<forall>n. served (net n (DOWNLOAD_URL @ p))) \<and>
    (\<forall>p\<in>set paths. local_filename dir p \<notin> unwritable w)"
  then have h1: "\<forall>p\<in>set paths. \<forall>n. served (net n (DOWNLOAD_URL @ p))"
    and h2: "\<forall>p\<in>set paths. local_filename dir p \<notin> unwritable w" by simp_all
  note r = pool_idempotent_resume[where net = net and net' = net', OF h1 h2]
  show "fst (executor_map net dir paths w) = Inr (replicate (length paths) None)"
    and "\<forall>p\<in>set paths.
         path_exists (snd (executor_map net dir paths w)) (local_filename dir p)"
    and "fst (executor_map net' dir paths (snd (executor_map net dir paths w))) =
      Inr (replicate (length paths) None)"
    and "requests (snd (executor_map net' dir paths (snd (executor_map net dir paths w)))) =
      requests (snd (executor_map net dir paths w))"
    and "files (snd (executor_map net' dir paths (snd (executor_map net dir paths w)))) =
      files (snd (executor_map net dir paths w))"
    using r by simp_all
next
  show "\<exists>rs. requests (snd (main read_lines net a w)) = requests w @ rs \<and>
      set rs \<subseteq> insert (BASE_URL @ WARC_PATHS_FILE a)
        ((\<lambda>p. DOWNLOAD_URL @ p) `
           {p. \<not> path_exists w (local_filename (DOWNLOAD_FOLDER a) p)})"
    by (rule main_requests)
next
  assume h: "\<not> year_month_invalid (year_month a) \<and> \<not> path_exists w (warc_paths_local a) \<and>
    (\<forall>n. net n (BASE_URL @ WARC_PATHS_FILE a) = Body chunks True) \<and>
    read_lines (concat chunks) = Some lines \<and>
    (\<forall>p\<in>set (fst (limit_files (max_files a) (map strip lines) w)).
       \<forall>n. served (net n (DOWNLOAD_URL @ p))) \<and>
    unwritable w = {}"
  then have h1: "\<not> year_month_invalid (year_month a)"
    and h2: "\<not> path_exists w (warc_paths_local a)"
    and h3: "\<forall>n. net n (BASE_URL @ WARC_PATHS_FILE a) = Body chunks True"
    and h4: "read_lines (concat chunks) = Some lines"
    and h5: "\<forall>p\<in>set (fst (limit_files (max_files a) (map strip lines) w)).
       \<forall>n. served (net n (DOWNLOAD_URL @ p))"
    and h6: "unwritable w = {}" by simp_all
  note r = program_idempotent_resume[where net = net and read_lines = read_lines,
      OF h1 h2 h3 h4 h5 h6]
  show "fst (main read_lines net a w) = Exit 0"
    and "fst (main read_lines net a (snd (main read_lines net a w))) = Exit 0"
    and "requests (snd (main read_lines net a (snd (main read_lines net a w)))) =
      requests (snd (main read_lines net a w)) @ [BASE_URL @ WARC_PATHS_FILE a]"
    and "files (snd (main read_lines net a (snd (main read_lines net a w)))) =
      files (snd (main read_lines net a w))"
    using r by simp_all
qed

theorem existing_files_are_skipped_witness:
  "\<not> path_exists empty_world (warc_paths_local args_2023_09) \<and>
   unwritable empty_world = {} \<and>
   fst (main read_listing serving_net args_2023_09 empty_world) = Exit 0 \<and>
   path_exists (snd (main read_listing serving_net args_2023_09 empty_world)) ''d/1.warc.gz'' \<and>
   download_warc_file dead_net ''d'' ''a/1.warc.gz''
       (snd (main read_listing serving_net args_2023_09 empty_world)) =
     (Inr None, emit INFO (AlreadyExists ''d/1.warc.gz'')
       (snd (main read_listing serving_net args_2023_09 empty_world))) \<and>
   requests (snd (main read_listing serving_net args_2023_09
       (snd (main read_listing serving_net args_2023_09 empty_world)))) =
     requests (snd (main read_listing serving_net args_2023_09 empty_world)) @
       [''https://data.commoncrawl.org/crawl-data/CC-NEWS/2023/09/warc.paths.gz''] \<and>
   files (snd (main read_listing serving_net args_2023_09
       (snd (main read_listing serving_net args_2023_09 empty_world)))) =
     files (snd (main read_listing serving_net args_2023_09 empty_world)) \<and>
   requests (snd (executor_map dead_net ''d'' [''a/1.warc.gz'', ''a/2.warc.gz'']
       (snd (executor_map serving_net ''d'' [''a/1.warc.gz'', ''a/2.warc.gz''] empty_world)))) =
     [''https://data.commoncrawl.org/a/1.warc.gz'', ''https://data.commoncrawl.org/a/2.warc.gz'']"
proof -
  let ?w1 = "snd (main read_listing serving_net args_2023_09 empty_world)"
  let ?ps = "[''a/1.warc.gz'', ''a/2.warc.gz'']"
  have v: "\<not> year_month_invalid (year_month args_2023_09)" by (simp add: evals)
  have f: "\<not> path_exists empty_world (warc_paths_local args_2023_09)" by (simp add: evals)
  have l: "\<forall>n. serving_net n (BASE_URL @ WARC_PATHS_FILE args_2023_09) = Body [''gz''] True"
    by (simp add: evals)
  have d: "read_listing (concat [''gz'']) = Some [''a/1.warc.gz'' @ [CHR 0x0A]]"
    by (simp add: evals)
  have o: "\<forall>p\<in>set (fst (limit_files (max_files args_2023_09)
               (map strip [''a/1.warc.gz'' @ [CHR 0x0A]]) empty_world)).
             \<forall>n. served (serving_net n (DOWNLOAD_URL @ p))"
    by (simp add: evals)
  have u: "unwritable empty_world = {}" by (simp add: evals)
  have url: "BASE_URL @ WARC_PATHS_FILE args_2023_09 =
      ''https://data.commoncrawl.org/crawl-data/CC-NEWS/2023/09/warc.paths.gz''"
    by (simp add: evals)
  have e1: "path_exists ?w1 ''d/1.warc.gz''" by (simp add: evals)
  have lf: "local_filename ''d'' ''a/1.warc.gz'' = ''d/1.warc.gz''" by (simp add: evals)
  have s: "\<forall>p\<in>set ?ps. \<forall>n. served (serving_net n (DOWNLOAD_URL @ p))" by (simp add: evals)
  have nw: "\<forall>p\<in>set ?ps. local_filename ''d'' p \<notin> unwritable empty_world" by (simp add: evals)
  have r1: "requests (snd (executor_map serving_net ''d'' ?ps empty_world)) =
     [''https://data.commoncrawl.org/a/1.warc.gz'', ''https://data.commoncrawl.org/a/2.warc.gz'']"
    by (simp add: evals)
  note t1 = existing_files_are_skipped[where w = empty_world and net = serving_net
      and read_lines = read_listing and a = args_2023_09 and chunks = "[''gz'']"
      and lines = "[''a/1.warc.gz'' @ [CHR 0x0A]]" and net' = dead_net and dir = "''d''"
      and paths = ?ps and path = "''a/1.warc.gz''"]
  note t2 = existing_files_are_skipped[where w = ?w1 and net = dead_net
      and dir = "''d''" and path = "''a/1.warc.gz''" and paths = "[]"
      and read_lines = read_listing and a = args_2023_09 and chunks = "[]" and lines = "[]"
      and net' = dead_net]
  have run2: "fst (main read_listing serving_net args_2023_09 empty_world) = Exit 0 \<and>
      requests (snd (main read_listing serving_net args_2023_09 ?w1)) =
        requests ?w1 @ [BASE_URL @ WARC_PATHS_FILE args_2023_09] \<and>
      files (snd (main read_listing serving_net args_2023_09 ?w1)) = files ?w1"
    using t1 v f l d o u by blast
  have pool2: "requests (snd (executor_map dead_net ''d'' ?ps
       (snd (executor_map serving_net ''d'' ?ps empty_world)))) =
      requests (snd (executor_map serving_net ''d'' ?ps empty_world))"
    using t1 s nw by blast
  have skip: "download_warc_file dead_net ''d'' ''a/1.warc.gz'' ?w1 =
     (Inr None, emit INFO (AlreadyExists (local_filename ''d'' ''a/1.warc.gz'')) ?w1)"
    using t2 e1 lf by simp
  show ?thesis using f u e1 run2 pool2 skip url r1 lf by simp
qed


subsection \<open>Exceptions of download\_warc\_file\<close>

text \<open>
  Claim C4, as stated, fails: \<open>download_with_retries\<close> catches \<open>RequestException\<close> only.
  When the destination cannot be opened for writing, \<open>OSError\<close> leaves
  \<open>download_warc_file\<close>, and the script ends with it.
\<close>

theorem os_error_propagates_counterexample:
  "fst (download_warc_file serving_net ''d'' ''a/1.warc.gz'' readonly_world) = Inl OSError \<and>
   fst (main read_listing serving_net args_2023_09 readonly_world) = Uncaught OSError"
  by (simp add: evals)

text \<open>
  Claim C4, amended. \<open>download_warc_file\<close> never raises a \<open>RequestException\<close>, whatever
  the network does; when its destination can be opened it raises nothing and returns
  \<open>None\<close>, also when all attempts have failed. A pool over paths whose destinations can
  be opened returns a result for every path.
\<close>

theorem network_failures_not_propagated:
  "fst (download_warc_file net dir path w) \<noteq> Inl RequestException \<and>
   (local_filename dir path \<notin> unwritable w \<longrightarrow>
      fst (download_warc_file net dir path w) = Inr None) \<and>
   ((\<forall>p\<in>set paths. local_filename dir p \<notin> unwritable w) \<longrightarrow>
      fst (executor_map net dir paths w) = Inr (replicate (length paths) None))"
  using download_warc_file_exn[of net dir path w RequestException]
    download_warc_file_returns[of dir path w net] executor_map_returns[of paths dir w net]
  by auto

theorem network_failures_not_propagated_witness:
  "local_filename ''d'' ''a/1.warc.gz'' \<notin> unwritable empty_world \<and>
   fst (download_with_retries dead_net ''https://data.commoncrawl.org/a/1.warc.gz''
          ''d/1.warc.gz'' 5 10 empty_world) = Inr False \<and>
   fst (download_warc_file dead_net ''d'' ''a/1.warc.gz'' empty_world) = Inr None \<and>
   fst (executor_map dead_net ''d'' [''a/1.warc.gz'', ''a/2.warc.gz''] empty_world) =
     Inr [None, None]"
proof -
  have u: "unwritable empty_world = {}" by (simp add: empty_world_def)
  have f: "fst (download_with_retries dead_net ''https://data.commoncrawl.org/a/1.warc.gz''
          ''d/1.warc.gz'' 5 10 empty_world) = Inr False"
    by (simp add: evals)
  show ?thesis
    using u f
      network_failures_not_propagated[where net = dead_net and dir = "''d''"
        and path = "''a/1.warc.gz''" and w = empty_world
        and paths = "[''a/1.warc.gz'', ''a/2.warc.gz'']"]
    by simp
qed

subsection \<open>What the pool returns\<close>

text \<open>
  Claim C6, as stated, fails: no counts are returned. One path that is downloaded, one
  whose attempts all fail and one that is skipped give the same result, \<open>[None]\<close>.
\<close>

theorem no_report_counterexample:
  "fst (download_with_retries serving_net ''https://data.commoncrawl.org/a/1.warc.gz''
          ''d/1.warc.gz'' 5 10 empty_world) = Inr True \<and>
   fst (download_with_retries dead_net ''https://data.commoncrawl.org/a/1.warc.gz''
          ''d/1.warc.gz'' 5 10 empty_world) = Inr False \<and>
   fst (executor_map serving_net ''d'' [''a/1.warc.gz''] empty_world) = Inr [None] \<and>
   fst (executor_map dead_net ''d'' [''a/1.warc.gz''] empty_world) = Inr [None] \<and>
   fst (executor_map dead_net ''d'' [''a/1.warc.gz''] resumed_world) = Inr [None]"
  by (simp add: evals)

text \<open>
  Claim C6, amended. When the pool has run \<open>download_warc_file\<close> over all paths, its
  result is one \<open>None\<close> for each path.
\<close>

theorem pool_returns_none_per_entry:
  "fst (executor_map net dir paths w) = Inr results \<Longrightarrow>
   results = replicate (length paths) None"
  by (rule executor_map_none)

theorem pool_returns_none_per_entry_witness:
  "fst (executor_map listing_only_net ''d'' [''a/1.warc.gz'', ''a/2.warc.gz''] resumed_world) =
     Inr [None, None] \<and>
   [None, None] = replicate (length [''a/1.warc.gz'', ''a/2.warc.gz'']) (None :: bool option)"
proof -
  have r: "fst (executor_map listing_only_net ''d'' [''a/1.warc.gz'', ''a/2.warc.gz'']
             resumed_world) = Inr [None, None]"
    by (simp add: evals)
  show ?thesis
    by (rule conjI[OF r pool_returns_none_per_entry[OF r]])
qed

subsection \<open>The period argument\<close>

text \<open>
  Claim C7. The period is accepted exactly when it has 7 characters and \<open>/\<close> at index 4.
  The script then goes on with \<open>download_month\<close>; otherwise it logs one error and exits
  with status 1, with no request made and no file touched.
\<close>

theorem year_month_validation:
  "(\<not> year_month_invalid s) = (length s = 7 \<and> s ! 4 = CHR ''/'') \<and>
   main read_lines net a w =
     (if length (year_month a) = 7 \<and> year_month a ! 4 = CHR ''/''
      then download_month read_lines net a w
      else (Exit 1, emit ERROR InvalidYearMonth w))"
  by (auto simp: year_month_invalid_def main_def)

theorem year_month_validation_witness:
  "\<not> year_month_invalid ''2023/09'' \<and> year_month_invalid ''2023-09'' \<and>
   year_month_invalid ''2023/9'' \<and>
   main read_listing serving_net (args_2023_09\<lparr>year_month := ''2023-09''\<rparr>) empty_world =
     (Exit 1, emit ERROR InvalidYearMonth empty_world) \<and>
   requests (emit ERROR InvalidYearMonth empty_world) = [] \<and>
   main read_listing serving_net args_2023_09 empty_world =
     download_month read_listing serving_net args_2023_09 empty_world"
  using year_month_validation[of "''2023/09''" read_listing serving_net
      "args_2023_09\<lparr>year_month := ''2023-09''\<rparr>" empty_world]
    year_month_validation[of "''2023-09''" read_listing serving_net args_2023_09 empty_world]
    year_month_validation[of "''2023/9''"]
  by (simp add: args_2023_09_def empty_world_def)

subsection \<open>The local copy of the listing\<close>

text \<open>
  Claim C9. When the script ends with status 0, that is when the pool has completed, the
  local copy of the listing does not exist.
\<close>

theorem manifest_removed_on_completion:
  "fst (main read_lines net a w) = Exit 0 \<Longrightarrow>
   \<not> path_exists (snd (main read_lines net a w)) (warc_paths_local a)"
  using download_month_exit0[of read_lines net a w]
  by (simp add: main_def split: if_splits)

theorem manifest_removed_on_completion_witness:
  "fst (main read_listing listing_only_net args_2023_09 empty_world) = Exit 0 \<and>
   warc_paths_local args_2023_09 = ''d/warc.paths.gz'' \<and>
   \<not> path_exists (snd (main read_listing listing_only_net args_2023_09 empty_world))
       ''d/warc.paths.gz'' \<and>
   \<not> path_exists (snd (main read_listing listing_only_net args_2023_09 empty_world))
       ''d/1.warc.gz''"
proof -
  have x: "fst (main read_listing listing_only_net args_2023_09 empty_world) = Exit 0"
    by (simp add: evals)
  have l: "warc_paths_local args_2023_09 = ''d/warc.paths.gz''"
    by (simp add: evals)
  have f: "\<not> path_exists (snd (main read_listing listing_only_net args_2023_09 empty_world))
       ''d/1.warc.gz''"
    by (simp add: evals)
  show ?thesis
    using x l f manifest_removed_on_completion[OF x] by simp
qed

subsection \<open>A limit of zero\<close>

text \<open>
  Claim C10. With \<open>--max-files 0\<close> the list of paths is left as it is, and the script
  does what it does without the option.
\<close>

theorem max_files_zero_is_no_limit:
  "limit_files (Some 0) file_paths w = (file_paths, w) \<and>
   limit_files (Some 0) file_paths w = limit_files None file_paths w \<and>
   main read_lines net (a\<lparr>max_files := Some 0\<rparr>) w = main read_lines net (a\<lparr>max_files := None\<rparr>) w"
  by (simp add: limit_files_def main_def download_month_zero)

theorem max_files_zero_is_no_limit_witness:
  "main read_listing serving_net (args_2023_09\<lparr>max_files := Some 0\<rparr>) empty_world =
     main read_listing serving_net args_2023_09 empty_world \<and>
   requests (snd (main read_listing serving_net (args_2023_09\<lparr>max_files := Some 0\<rparr>)
     empty_world)) =
     [''https://data.commoncrawl.org/crawl-data/CC-NEWS/2023/09/warc.paths.gz'',
      ''https://data.commoncrawl.org/a/1.warc.gz'']"
proof -
  have a: "args_2023_09\<lparr>max_files := None\<rparr> = args_2023_09"
    by (simp add: args_2023_09_def)
  have r: "requests (snd (main read_listing serving_net args_2023_09 empty_world)) =
     [''https://data.commoncrawl.org/crawl-data/CC-NEWS/2023/09/warc.paths.gz'',
      ''https://data.commoncrawl.org/a/1.warc.gz'']"
    by (simp add: evals)
  show ?thesis
    using a r max_files_zero_is_no_limit[where read_lines = read_listing and net = serving_net
        and a = args_2023_09 and w = empty_world and file_paths = "[]"]
    by simp
qed

subsection \<open>The limit on the number of files\<close>

text \<open>
  Claim C5. With \<open>--max-files k\<close>, \<open>0 < k < N\<close>, for a listing of \<open>N\<close> lines, the list is cut
  to its first \<open>k\<close> entries, in their order, before the pool starts. The pool is run over
  these \<open>k\<close> paths: every request the rest of the script makes is for one of them, and
  when no task raises each of them has been requested or logged as skipped.
\<close>

theorem truncation_first_k:
  assumes "0 < k" and "k < int (length lines)" and "max_files a = Some k"
    and "files w (warc_paths_local a) = Some bytes" and "read_lines bytes = Some lines"
  shows "fst (limit_files (max_files a) (map strip lines) w) = take (nat k) (map strip lines) \<and>
         length (take (nat k) (map strip lines)) = nat k \<and>
         fetch_listed read_lines net a w =
           (case executor_map net (DOWNLOAD_FOLDER a) (take (nat k) (map strip lines))
                   (emit INFO (Starting (nat k)) (emit INFO (LimitedTo k)
                      (emit INFO (Extracting (warc_paths_local a)) w))) of
              (Inl e, w') \<Rightarrow> (Uncaught e, w')
            | (Inr rs, w') \<Rightarrow> (Exit 0, cleanup a w')) \<and>
         (\<exists>rs. requests (snd (fetch_listed read_lines net a w)) = requests w @ rs \<and>
               set rs \<subseteq> (\<lambda>p. DOWNLOAD_URL @ p) ` set (take (nat k) (map strip lines))) \<and>
         (\<exists>rs ls. requests (snd (fetch_listed read_lines net a w)) = requests w @ rs \<and>
               log (snd (fetch_listed read_lines net a w)) = log w @ ls \<and>
               set rs \<subseteq> (\<lambda>p. DOWNLOAD_URL @ p) `
                 {p \<in> set (take (nat k) (map strip lines)).
                    \<not> path_exists w (local_filename (DOWNLOAD_FOLDER a) p)} \<and>
               (fst (fetch_listed read_lines net a w) = Exit 0 \<longrightarrow>
                  (\<forall>p\<in>set (take (nat k) (map strip lines)).
                     DOWNLOAD_URL @ p \<in> set rs \<or>
                     (INFO, AlreadyExists (local_filename (DOWNLOAD_FOLDER a) p)) \<in> set ls)))"
proof -
  let ?fp = "take (nat k) (map strip lines)"
  let ?w1 = "emit INFO (Extracting (warc_paths_local a)) w"
  let ?w2 = "emit INFO (LimitedTo k) ?w1"
  let ?w3 = "emit INFO (Starting (nat k)) ?w2"
  have len: "length ?fp = nat k" using assms(1,2) by simp
  have lf: "limit_files (max_files a) (map strip lines) ?w1 = (?fp, ?w2)"
    using assms(1,3) by (simp add: limit_files_first_k)
  have lf0: "fst (limit_files (max_files a) (map strip lines) w) = ?fp"
    using assms(1,3) by (simp add: limit_files_first_k)
  obtain r w4 where em: "executor_map net (DOWNLOAD_FOLDER a) ?fp ?w3 = (r, w4)"
    by (cases "executor_map net (DOWNLOAD_FOLDER a) ?fp ?w3")
  have em': "executor_map net (DOWNLOAD_FOLDER a) ?fp
               (emit INFO (Starting (length ?fp)) ?w2) = (r, w4)"
    using em len by simp
  have u: "fetch_listed read_lines net a w =
             (case r of Inl e \<Rightarrow> (Uncaught e, w4) | Inr rs \<Rightarrow> (Exit 0, cleanup a w4))"
    by (rule fetch_listed_unfold[where read_lines = read_lines, OF assms(4,5) lf em'])
  have eq: "fetch_listed read_lines net a w =
           (case executor_map net (DOWNLOAD_FOLDER a) ?fp ?w3 of
              (Inl e, w') \<Rightarrow> (Uncaught e, w')
            | (Inr rs, w') \<Rightarrow> (Exit 0, cleanup a w'))"
    using u em by (cases r) simp_all
  note t = fetch_listed_trace[where read_lines = read_lines and net = net, OF assms(4,5),
      unfolded lf0]
  obtain rs ls where tr: "requests (snd (fetch_listed read_lines net a w)) = requests w @ rs"
      "log (snd (fetch_listed read_lines net a w)) = log w @ ls"
      "set rs \<subseteq> (\<lambda>p. DOWNLOAD_URL @ p) `
         {p \<in> set ?fp. \<not> path_exists w (local_filename (DOWNLOAD_FOLDER a) p)}"
      "fst (fetch_listed read_lines net a w) = Exit 0 \<longrightarrow>
         (\<forall>p\<in>set ?fp. DOWNLOAD_URL @ p \<in> set rs \<or>
            (INFO, AlreadyExists (local_filename (DOWNLOAD_FOLDER a) p)) \<in> set ls)"
    using t by blast
  have up: "\<exists>rs. requests (snd (fetch_listed read_lines net a w)) = requests w @ rs \<and>
               set rs \<subseteq> (\<lambda>p. DOWNLOAD_URL @ p) ` set ?fp"
    using tr(1,3) by (intro exI[of _ rs]) auto
  have both: "\<exists>rs ls. requests (snd (fetch_listed read_lines net a w)) = requests w @ rs \<and>
               log (snd (fetch_listed read_lines net a w)) = log w @ ls \<and>
               set rs \<subseteq> (\<lambda>p. DOWNLOAD_URL @ p) `
                 {p \<in> set ?fp. \<not> path_exists w (local_filename (DOWNLOAD_FOLDER a) p)} \<and>
               (fst (fetch_listed read_lines net a w) = Exit 0 \<longrightarrow>
                  (\<forall>p\<in>set ?fp. DOWNLOAD_URL @ p \<in> set rs \<or>
                     (INFO, AlreadyExists (local_filename (DOWNLOAD_FOLDER a) p)) \<in> set ls))"
    using tr by blast
  show ?thesis using lf0 len eq up both by (intro conjI)
qed

theorem truncation_first_k_witness:
  "(0::int) < 2 \<and>
   (2::int) < int (length [''a/1.warc.gz'' @ [CHR 0x0A], ''a/2.warc.gz'' @ [CHR 0x0A],
                           ''a/3.warc.gz'' @ [CHR 0x0A]]) \<and>
   max_files args_first_two = Some 2 \<and>
   files listed_world (warc_paths_local args_first_two) = Some ''gz'' \<and>
   fst (limit_files (max_files args_first_two)
          (map strip [''a/1.warc.gz'' @ [CHR 0x0A], ''a/2.warc.gz'' @ [CHR 0x0A],
                      ''a/3.warc.gz'' @ [CHR 0x0A]]) listed_world) =
     [''a/1.warc.gz'', ''a/2.warc.gz''] \<and>
   fst (fetch_listed read_three_lines serving_net args_first_two listed_world) = Exit 0 \<and>
   requests (snd (fetch_listed read_three_lines serving_net args_first_two listed_world)) =
     [''https://data.commoncrawl.org/a/1.warc.gz'', ''https://data.commoncrawl.org/a/2.warc.gz'']"
proof -
  let ?lines = "[''a/1.warc.gz'' @ [CHR 0x0A], ''a/2.warc.gz'' @ [CHR 0x0A],
                 ''a/3.warc.gz'' @ [CHR 0x0A]]"
  have k: "(0::int) < 2" "(2::int) < int (length ?lines)" by simp_all
  have m: "max_files args_first_two = Some 2" by (simp add: args_first_two_def)
  have f: "files listed_world (warc_paths_local args_first_two) = Some ''gz''"
    by (simp add: evals)
  have r: "read_three_lines ''gz'' = Some ?lines" by (simp add: read_three_lines_def)
  have t: "take (nat 2) (map strip ?lines) = [''a/1.warc.gz'', ''a/2.warc.gz'']"
    by (simp add: strip_def isspace_def)
  have x: "fst (fetch_listed read_three_lines serving_net args_first_two listed_world) = Exit 0"
    by (simp add: evals)
  have q: "requests (snd (fetch_listed read_three_lines serving_net args_first_two listed_world)) =
     [''https://data.commoncrawl.org/a/1.warc.gz'', ''https://data.commoncrawl.org/a/2.warc.gz'']"
    by (simp add: evals)
  from truncation_first_k[where read_lines = read_three_lines and net = serving_net, OF k m f r]
  have "fst (limit_files (max_files args_first_two) (map strip ?lines) listed_world) =
          take (nat 2) (map strip ?lines)"
    by blast
  then show ?thesis using k m f q t x by simp
qed


subsection \<open>The exit status\<close>

text \<open>
  Claim C8, as stated, fails in its second half: after the listing has been downloaded
  the script still ends with an uncaught exception, and not with status 0, when the
  bytes do not decode or when a destination cannot be opened for writing.
\<close>

theorem served_listing_exit_counterexample:
  "fst (download_with_retries serving_net
         ''https://data.commoncrawl.org/crawl-data/CC-NEWS/2023/09/warc.paths.gz''
         ''d/warc.paths.gz'' 5 10 empty_world) = Inr True \<and>
   fst (main read_nothing serving_net args_2023_09 empty_world) = Uncaught DecodeError \<and>
   fst (download_with_retries serving_net
         ''https://data.commoncrawl.org/crawl-data/CC-NEWS/2023/09/warc.paths.gz''
         ''d/warc.paths.gz'' 5 10 readonly_world) = Inr True \<and>
   fst (main read_listing serving_net args_2023_09 readonly_world) = Uncaught OSError"
  by (simp add: evals)

text \<open>
  Claim C8, amended. For a valid period and no copy of the listing on disk: when the
  download of the listing returns \<open>False\<close>, the script exits with status 1 after the five
  requests for the listing and nothing else; when it returns \<open>True\<close>, the listing decodes
  and the destinations can be opened, the script exits with status 0 after every chosen
  path has been requested or skipped, whatever becomes of the requests for the objects.
\<close>

theorem manifest_failure_is_fatal:
  assumes "\<not> year_month_invalid (year_month a)" and "\<not> path_exists w (warc_paths_local a)"
  shows "(fst (download_with_retries net (BASE_URL @ WARC_PATHS_FILE a) (warc_paths_local a)
                5 10 w) = Inr False \<longrightarrow>
            main read_lines net a w =
              (Exit 1, emit ERROR ManifestFailed
                 (snd (download_with_retries net (BASE_URL @ WARC_PATHS_FILE a)
                        (warc_paths_local a) 5 10 w))) \<and>
            requests (snd (main read_lines net a w)) =
              requests w @ replicate 5 (BASE_URL @ WARC_PATHS_FILE a)) \<and>
         (fst (download_with_retries net (BASE_URL @ WARC_PATHS_FILE a) (warc_paths_local a)
                5 10 w) = Inr True \<and>
          files (snd (download_with_retries net (BASE_URL @ WARC_PATHS_FILE a)
                  (warc_paths_local a) 5 10 w)) (warc_paths_local a) = Some bytes \<and>
          read_lines bytes = Some lines \<and> unwritable w = {} \<longrightarrow>
            fst (main read_lines net a w) = Exit 0 \<and>
            (\<exists>rs ls.
               requests (snd (main read_lines net a w)) =
                 requests (snd (download_with_retries net (BASE_URL @ WARC_PATHS_FILE a)
                                 (warc_paths_local a) 5 10 w)) @ rs \<and>
               log (snd (main read_lines net a w)) =
                 log (snd (download_with_retries net (BASE_URL @ WARC_PATHS_FILE a)
                            (warc_paths_local a) 5 10 w)) @ ls \<and>
               (\<forall>p\<in>set (fst (limit_files (max_files a) (map strip lines) w)).
                  DOWNLOAD_URL @ p \<in> set rs \<or>
                  (INFO, AlreadyExists (local_filename (DOWNLOAD_FOLDER a) p)) \<in> set ls)))"
proof -
  let ?url = "BASE_URL @ WARC_PATHS_FILE a"
  let ?l = "warc_paths_local a"
  let ?fp = "fst (limit_files (max_files a) (map strip lines) w)"
  obtain x w1 where d: "download_with_retries net ?url ?l 5 10 w = (x, w1)"
    by (cases "download_with_retries net ?url ?l 5 10 w")
  have s1: "snd (download_with_retries net ?url ?l 5 10 w) = w1" using d by simp
  have m: "main read_lines net a w =
             (case x of Inl e \<Rightarrow> (Uncaught e, w1)
              | Inr ok \<Rightarrow> if \<not> ok then (Exit 1, emit ERROR ManifestFailed w1)
                          else fetch_listed read_lines net a w1)"
    using assms d by (simp add: main_def download_month_def Let_def split: sum.splits)
  have p1: "main read_lines net a w = (Exit 1, emit ERROR ManifestFailed w1) \<and>
            requests (snd (main read_lines net a w)) = requests w @ replicate 5 ?url"
    if f: "x = Inr False"
  proof -
    have "fst (retry_loop net ?url ?l 5 5 10 w) = Inr False"
      using d f by (simp add: download_with_retries_def)
    from retry_loop_false[OF this] have "requests w1 = requests w @ replicate 5 ?url"
      using d by (simp add: download_with_retries_def)
    then show ?thesis using m f by simp
  qed
  have p2: "fst (main read_lines net a w) = Exit 0 \<and>
            (\<exists>rs ls. requests (snd (main read_lines net a w)) = requests w1 @ rs \<and>
               log (snd (main read_lines net a w)) = log w1 @ ls \<and>
               (\<forall>p\<in>set ?fp. DOWNLOAD_URL @ p \<in> set rs \<or>
                  (INFO, AlreadyExists (local_filename (DOWNLOAD_FOLDER a) p)) \<in> set ls))"
    if t: "x = Inr True" and b: "files w1 ?l = Some bytes" and l: "read_lines bytes = Some lines"
      and u: "unwritable w = {}"
  proof -
    have u1: "unwritable w1 = {}"
      using download_with_retries_unwritable[of net ?url ?l 5 10 w] d u by simp
    have mf: "main read_lines net a w = fetch_listed read_lines net a w1" using m t by simp
    obtain w3 where w3: "unwritable w3 = unwritable w1"
      and eq: "fetch_listed read_lines net a w1 =
             (case executor_map net (DOWNLOAD_FOLDER a)
                     (fst (limit_files (max_files a) (map strip lines) w1)) w3 of
                (Inl e, w4) \<Rightarrow> (Uncaught e, w4)
              | (Inr rs, w4) \<Rightarrow> (Exit 0, cleanup a w4))"
      using fetch_listed_pool[where read_lines = read_lines, OF b l, of net] by blast
    have fp: "fst (limit_files (max_files a) (map strip lines) w1) = ?fp"
      by (rule limit_files_fst)
    obtain r w4 where em: "executor_map net (DOWNLOAD_FOLDER a) ?fp w3 = (r, w4)"
      by (cases "executor_map net (DOWNLOAD_FOLDER a) ?fp w3")
    have "\<forall>p\<in>set ?fp. local_filename (DOWNLOAD_FOLDER a) p \<notin> unwritable w3"
      using u1 w3 by simp
    from executor_map_returns[OF this, of net] have r: "r = Inr (replicate (length ?fp) None)"
      using em by simp
    have x0: "fst (fetch_listed read_lines net a w1) = Exit 0"
      using eq em r unfolding fp by simp
    obtain rs ls where tr: "requests (snd (fetch_listed read_lines net a w1)) = requests w1 @ rs"
      "log (snd (fetch_listed read_lines net a w1)) = log w1 @ ls"
      "fst (fetch_listed read_lines net a w1) = Exit 0 \<longrightarrow>
         (\<forall>p\<in>set ?fp. DOWNLOAD_URL @ p \<in> set rs \<or>
            (INFO, AlreadyExists (local_filename (DOWNLOAD_FOLDER a) p)) \<in> set ls)"
      using fetch_listed_trace[where read_lines = read_lines and net = net, OF b l, unfolded fp]
      by blast
    show ?thesis unfolding mf using x0 tr by blast
  qed
  show ?thesis
  proof (intro conjI impI)
    assume "fst (download_with_retries net ?url ?l 5 10 w) = Inr False"
    then have "x = Inr False" using d by simp
    from p1[OF this] have m1: "main read_lines net a w = (Exit 1, emit ERROR ManifestFailed w1)"
      and r1: "requests (snd (main read_lines net a w)) = requests w @ replicate 5 ?url"
      by blast+
    show "main read_lines net a w =
        (Exit 1, emit ERROR ManifestFailed (snd (download_with_retries net ?url ?l 5 10 w)))"
      unfolding s1 by (rule m1)
    show "requests (snd (main read_lines net a w)) = requests w @ replicate 5 ?url"
      by (rule r1)
  next
    assume h: "fst (download_with_retries net ?url ?l 5 10 w) = Inr True \<and>
      files (snd (download_with_retries net ?url ?l 5 10 w)) ?l = Some bytes \<and>
      read_lines bytes = Some lines \<and> unwritable w = {}"
    then have "x = Inr True" "files w1 ?l = Some bytes" "read_lines bytes = Some lines"
      "unwritable w = {}" using d by simp_all
    from p2[OF this] show "fst (main read_lines net a w) = Exit 0"
      and "\<exists>rs ls.
               requests (snd (main read_lines net a w)) =
                 requests (snd (download_with_retries net ?url ?l 5 10 w)) @ rs \<and>
               log (snd (main read_lines net a w)) =
                 log (snd (download_with_retries net ?url ?l 5 10 w)) @ ls \<and>
               (\<forall>p\<in>set ?fp. DOWNLOAD_URL @ p \<in> set rs \<or>
                  (INFO, AlreadyExists (local_filename (DOWNLOAD_FOLDER a) p)) \<in> set ls)"
      unfolding s1 by blast+
  qed
qed

theorem manifest_failure_is_fatal_witness:
  "\<not> year_month_invalid (year_month args_2023_09) \<and>
   \<not> path_exists empty_world (warc_paths_local args_2023_09) \<and>
   fst (main read_listing dead_net args_2023_09 empty_world) = Exit 1 \<and>
   requests (snd (main read_listing dead_net args_2023_09 empty_world)) =
     replicate 5 ''https://data.commoncrawl.org/crawl-data/CC-NEWS/2023/09/warc.paths.gz'' \<and>
   fst (download_with_retries listing_only_net ''https://data.commoncrawl.org/a/1.warc.gz''
         ''d/1.warc.gz'' 5 10 empty_world) = Inr False \<and>
   fst (main read_listing listing_only_net args_2023_09 empty_world) = Exit 0 \<and>
   requests (snd (main read_listing listing_only_net args_2023_09 empty_world)) =
     ''https://data.commoncrawl.org/crawl-data/CC-NEWS/2023/09/warc.paths.gz'' #
       replicate 5 ''https://data.commoncrawl.org/a/1.warc.gz'' \<and>
   (ERROR, FailedAfter ''https://data.commoncrawl.org/a/1.warc.gz'' 5) \<in>
     set (log (snd (main read_listing listing_only_net args_2023_09 empty_world)))"
proof -
  have v: "\<not> year_month_invalid (year_month args_2023_09)" by (simp add: evals)
  have a: "\<not> path_exists empty_world (warc_paths_local args_2023_09)" by (simp add: evals)
  have u: "BASE_URL @ WARC_PATHS_FILE args_2023_09 =
      ''https://data.commoncrawl.org/crawl-data/CC-NEWS/2023/09/warc.paths.gz''"
    by (simp add: evals)
  have f: "fst (download_with_retries dead_net (BASE_URL @ WARC_PATHS_FILE args_2023_09)
             (warc_paths_local args_2023_09) 5 10 empty_world) = Inr False"
    by (simp add: evals)
  have t: "fst (download_with_retries listing_only_net (BASE_URL @ WARC_PATHS_FILE args_2023_09)
             (warc_paths_local args_2023_09) 5 10 empty_world) = Inr True"
    by (simp add: evals)
  have b: "files (snd (download_with_retries listing_only_net
             (BASE_URL @ WARC_PATHS_FILE args_2023_09)
             (warc_paths_local args_2023_09) 5 10 empty_world)) (warc_paths_local args_2023_09)
           = Some ''gz''"
    by (simp add: evals)
  have l: "read_listing ''gz'' = Some [''a/1.warc.gz'' @ [CHR 0x0A]]"
    by (simp add: read_listing_def)
  have w: "unwritable empty_world = {}" "requests empty_world = []"
    by (simp_all add: empty_world_def)
  have o: "fst (download_with_retries listing_only_net ''https://data.commoncrawl.org/a/1.warc.gz''
         ''d/1.warc.gz'' 5 10 empty_world) = Inr False"
    by (simp add: evals)
  have q: "requests (snd (main read_listing listing_only_net args_2023_09 empty_world)) =
     ''https://data.commoncrawl.org/crawl-data/CC-NEWS/2023/09/warc.paths.gz'' #
       replicate 5 ''https://data.commoncrawl.org/a/1.warc.gz''"
    by (simp add: evals)
  have g: "(ERROR, FailedAfter ''https://data.commoncrawl.org/a/1.warc.gz'' 5) \<in>
     set (log (snd (main read_listing listing_only_net args_2023_09 empty_world)))"
    by (simp add: evals)
  have one: "fst (main read_listing dead_net args_2023_09 empty_world) = Exit 1 \<and>
     requests (snd (main read_listing dead_net args_2023_09 empty_world)) =
       replicate 5 ''https://data.commoncrawl.org/crawl-data/CC-NEWS/2023/09/warc.paths.gz''"
  proof -
    from f manifest_failure_is_fatal[OF v a, where net = dead_net and read_lines = read_listing]
    have "main read_listing dead_net args_2023_09 empty_world =
            (Exit 1, emit ERROR ManifestFailed
               (snd (download_with_retries dead_net (BASE_URL @ WARC_PATHS_FILE args_2023_09)
                      (warc_paths_local args_2023_09) 5 10 empty_world)))"
      and "requests (snd (main read_listing dead_net args_2023_09 empty_world)) =
            requests empty_world @ replicate 5 (BASE_URL @ WARC_PATHS_FILE args_2023_09)"
      by blast+
    then show ?thesis using u w by simp
  qed
  have two: "fst (main read_listing listing_only_net args_2023_09 empty_world) = Exit 0"
    using t b l w(1) manifest_failure_is_fatal[OF v a, where net = listing_only_net
        and bytes = "''gz''" and read_lines = read_listing
        and lines = "[''a/1.warc.gz'' @ [CHR 0x0A]]"]
    by blast
  show ?thesis using v a o one two q g by simp
qed

end
